theory Spec2Isabelle
  imports Complex_Main
begin

section \<open>The value type of the evaluators\<close>

text \<open>
  Both shapes compute with \<^verbatim>\<open>Double_t\<close>.  A value is modelled as a real number or one of
  the three special values of IEEE 754 arithmetic, so that a division by a zero width or a
  power outside its domain is a value of the model as it is a value of the program, and
  the comparisons that decide the region see it.

  The code is read twice.  In the first reading, which comes first and is the one of the
  closed forms, the operations on finite values are the exact ones of the real numbers:
  no rounding, no overflow, no underflow.  What is proved of it is what the program means
  to compute; it is a statement about the doubles returned only where the branch taken
  and the values compared are read as the program computed them.  The second reading
  rounds every operation to binary64; it decides what rounding, overflow and underflow
  do to the doubles returned.  In both the one zero stands for the positive zero.
\<close>

datatype dbl = Fin real | PInf | NInf | NaN

text \<open>
  The operators of C++ on doubles.  NaN is contagious; \<open>\<infinity> - \<infinity>\<close>, \<open>0 * \<infinity>\<close>, \<open>0 / 0\<close> and
  \<open>\<infinity> / \<infinity>\<close> are NaN; a non-zero number divided by zero is the infinity of its sign; a
  number divided by an infinity is 0; every comparison with NaN is false.
\<close>

instantiation dbl :: "{zero,one,uminus,plus,minus,times,inverse,ord}"
begin

definition zero_dbl :: dbl where
  "zero_dbl = Fin 0"

definition one_dbl :: dbl where
  "one_dbl = Fin 1"

fun uminus_dbl :: "dbl \<Rightarrow> dbl" where
  "uminus_dbl (Fin a) = Fin (- a)"
| "uminus_dbl PInf = NInf"
| "uminus_dbl NInf = PInf"
| "uminus_dbl NaN = NaN"

fun plus_dbl :: "dbl \<Rightarrow> dbl \<Rightarrow> dbl" where
  "plus_dbl (Fin a) (Fin b) = Fin (a + b)"
| "plus_dbl NaN _ = NaN"
| "plus_dbl _ NaN = NaN"
| "plus_dbl PInf NInf = NaN"
| "plus_dbl NInf PInf = NaN"
| "plus_dbl PInf _ = PInf"
| "plus_dbl _ PInf = PInf"
| "plus_dbl NInf _ = NInf"
| "plus_dbl _ NInf = NInf"

definition minus_dbl :: "dbl \<Rightarrow> dbl \<Rightarrow> dbl" where
  "minus_dbl a b = a + (- b)"

fun times_dbl :: "dbl \<Rightarrow> dbl \<Rightarrow> dbl" where
  "times_dbl (Fin a) (Fin b) = Fin (a * b)"
| "times_dbl NaN _ = NaN"
| "times_dbl _ NaN = NaN"
| "times_dbl (Fin a) PInf = (if a = 0 then NaN else if 0 < a then PInf else NInf)"
| "times_dbl (Fin a) NInf = (if a = 0 then NaN else if 0 < a then NInf else PInf)"
| "times_dbl PInf (Fin b) = (if b = 0 then NaN else if 0 < b then PInf else NInf)"
| "times_dbl NInf (Fin b) = (if b = 0 then NaN else if 0 < b then NInf else PInf)"
| "times_dbl PInf PInf = PInf"
| "times_dbl PInf NInf = NInf"
| "times_dbl NInf PInf = NInf"
| "times_dbl NInf NInf = PInf"

fun divide_dbl :: "dbl \<Rightarrow> dbl \<Rightarrow> dbl" where
  "divide_dbl (Fin a) (Fin b) =
     (if b \<noteq> 0 then Fin (a / b)
      else if a = 0 then NaN else if 0 < a then PInf else NInf)"
| "divide_dbl NaN _ = NaN"
| "divide_dbl _ NaN = NaN"
| "divide_dbl (Fin a) PInf = Fin 0"
| "divide_dbl (Fin a) NInf = Fin 0"
| "divide_dbl PInf (Fin b) = (if 0 \<le> b then PInf else NInf)"
| "divide_dbl NInf (Fin b) = (if 0 \<le> b then NInf else PInf)"
| "divide_dbl PInf PInf = NaN"
| "divide_dbl PInf NInf = NaN"
| "divide_dbl NInf PInf = NaN"
| "divide_dbl NInf NInf = NaN"

definition inverse_dbl :: "dbl \<Rightarrow> dbl" where
  "inverse_dbl a = divide (Fin 1) a"

fun less_dbl :: "dbl \<Rightarrow> dbl \<Rightarrow> bool" where
  "less_dbl (Fin a) (Fin b) = (a < b)"
| "less_dbl NaN _ = False"
| "less_dbl _ NaN = False"
| "less_dbl _ NInf = False"
| "less_dbl PInf _ = False"
| "less_dbl NInf _ = True"
| "less_dbl _ PInf = True"

fun less_eq_dbl :: "dbl \<Rightarrow> dbl \<Rightarrow> bool" where
  "less_eq_dbl (Fin a) (Fin b) = (a \<le> b)"
| "less_eq_dbl NaN _ = False"
| "less_eq_dbl _ NaN = False"
| "less_eq_dbl NInf _ = True"
| "less_eq_dbl _ PInf = True"
| "less_eq_dbl _ NInf = False"
| "less_eq_dbl PInf _ = False"

instance ..

end

text \<open>The C library's \<^verbatim>\<open>exp\<close> and \<^verbatim>\<open>fabs\<close>.\<close>

fun exp_dbl :: "dbl \<Rightarrow> dbl" where
  "exp_dbl (Fin a) = Fin (exp a)"
| "exp_dbl PInf = PInf"
| "exp_dbl NInf = Fin 0"
| "exp_dbl NaN = NaN"

fun fabs :: "dbl \<Rightarrow> dbl" where
  "fabs (Fin a) = Fin \<bar>a\<bar>"
| "fabs PInf = PInf"
| "fabs NInf = PInf"
| "fabs NaN = NaN"

text \<open>
  \<^verbatim>\<open>TMath::Power(x, y)\<close> is the C library's \<^verbatim>\<open>pow(x, y)\<close>: 1 for a zero exponent or a base 1
  whatever the other argument, NaN for a negative finite base with a finite exponent that
  is not an integer, an infinity for a zero base with a negative exponent; with an
  integer exponent it is the integer power, for a negative base too.
\<close>

definition is_int :: "real \<Rightarrow> bool" where
  "is_int y = (y = of_int \<lfloor>y\<rfloor>)"

definition is_odd_int :: "real \<Rightarrow> bool" where
  "is_odd_int y = (is_int y \<and> odd \<lfloor>y\<rfloor>)"

fun TMath_Power :: "dbl \<Rightarrow> dbl \<Rightarrow> dbl" where
  "TMath_Power (Fin x) (Fin y) =
     (if y = 0 then Fin 1
      else if 0 < x then Fin (x powr y)
      else if x = 0 then (if 0 < y then Fin 0 else PInf)
      else if is_int y then Fin (x powi \<lfloor>y\<rfloor>)
      else NaN)"
| "TMath_Power NaN (Fin y) = (if y = 0 then Fin 1 else NaN)"
| "TMath_Power PInf (Fin y) = (if y = 0 then Fin 1 else if 0 < y then PInf else Fin 0)"
| "TMath_Power NInf (Fin y) =
     (if y = 0 then Fin 1
      else if 0 < y then (if is_odd_int y then NInf else PInf)
      else Fin 0)"
| "TMath_Power (Fin x) NaN = (if x = 1 then Fin 1 else NaN)"
| "TMath_Power (Fin x) PInf =
     (if \<bar>x\<bar> = 1 then Fin 1 else if \<bar>x\<bar> < 1 then Fin 0 else PInf)"
| "TMath_Power (Fin x) NInf =
     (if \<bar>x\<bar> = 1 then Fin 1 else if \<bar>x\<bar> < 1 then PInf else Fin 0)"
| "TMath_Power NaN _ = NaN"
| "TMath_Power _ NaN = NaN"
| "TMath_Power _ PInf = PInf"
| "TMath_Power _ NInf = Fin 0"

section \<open>RooModDSCB: Gaussian core with double power-law tails\<close>

text \<open>
  \<^verbatim>\<open>RooModDSCB::evaluate\<close>.  The proxies of the class are read as their current values;
  they are the arguments, in the order of the constructor.
\<close>

definition RooModDSCB_evaluate ::
  "dbl \<Rightarrow> dbl \<Rightarrow> dbl \<Rightarrow> dbl \<Rightarrow> dbl \<Rightarrow> dbl \<Rightarrow> dbl \<Rightarrow> dbl \<Rightarrow> dbl \<Rightarrow> dbl \<Rightarrow> dbl \<Rightarrow> dbl \<Rightarrow> dbl" where
  "RooModDSCB_evaluate x x0 sigmaL sigmaR alphaL nL1 nL2 fL alphaR nR1 nR2 fR =
     (let left_sigma = (x - x0) / sigmaL;
          right_sigma = (x - x0) / sigmaR
      in
      if left_sigma < Fin (- 1) * alphaL then
        (let nL2_eff = (if nL2 < nL1 then nL1 else nL2);
             abs_alpha = fabs alphaL;
             BL1 = nL1 / abs_alpha - abs_alpha;
             BL2 = nL2_eff / abs_alpha - abs_alpha;
             AL1 = TMath_Power (nL1 / abs_alpha) nL1
                   * exp_dbl (Fin (- 0.5) * abs_alpha * abs_alpha);
             AL2 = TMath_Power (nL2_eff / abs_alpha) nL2_eff
                   * exp_dbl (Fin (- 0.5) * abs_alpha * abs_alpha);
             power_law1 = AL1 * TMath_Power (BL1 - left_sigma) (Fin (- 1) * nL1);
             power_law2 = AL2 * TMath_Power (BL2 - left_sigma) (Fin (- 1) * nL2_eff)
         in fL * power_law1 + (Fin 1 - fL) * power_law2)
      else if left_sigma < Fin 0 then
        (let exp_arg = (x - x0) / sigmaL
         in exp_dbl (Fin (- 0.5) * exp_arg * exp_arg))
      else if right_sigma < alphaR then
        (let exp_arg = (x - x0) / sigmaR
         in exp_dbl (Fin (- 0.5) * exp_arg * exp_arg))
      else
        (let nR2_eff = (if nR2 < nR1 then nR1 else nR2);
             abs_alpha = fabs alphaR;
             BR1 = nR1 / abs_alpha - abs_alpha;
             BR2 = nR2_eff / abs_alpha - abs_alpha;
             AR1 = TMath_Power (nR1 / abs_alpha) nR1
                   * exp_dbl (Fin (- 0.5) * abs_alpha * abs_alpha);
             AR2 = TMath_Power (nR2_eff / abs_alpha) nR2_eff
                   * exp_dbl (Fin (- 0.5) * abs_alpha * abs_alpha);
             power_law1 = AR1 * TMath_Power (BR1 + right_sigma) (Fin (- 1) * nR1);
             power_law2 = AR2 * TMath_Power (BR2 + right_sigma) (Fin (- 1) * nR2_eff)
         in fR * power_law1 + (Fin 1 - fR) * power_law2))"

text \<open>
  The four branches of the \<^verbatim>\<open>if\<close> chain, named as the comments of the source name them.
  \<open>RooModDSCB_region\<close> is the chain of conditions alone; \<open>left_power_law\<close>,
  \<open>gaussian\<close> and \<open>right_power_law\<close> are the bodies of the branches as functions of the
  normalised distance they read.
\<close>

datatype dscb_region = LeftPowerLaw | LeftGaussian | RightGaussian | RightPowerLaw

definition RooModDSCB_region :: "dbl \<Rightarrow> dbl \<Rightarrow> dbl \<Rightarrow> dbl \<Rightarrow> dbl \<Rightarrow> dbl \<Rightarrow> dscb_region" where
  "RooModDSCB_region x x0 sigmaL sigmaR alphaL alphaR =
     (let left_sigma = (x - x0) / sigmaL;
          right_sigma = (x - x0) / sigmaR
      in
      if left_sigma < Fin (- 1) * alphaL then LeftPowerLaw
      else if left_sigma < Fin 0 then LeftGaussian
      else if right_sigma < alphaR then RightGaussian
      else RightPowerLaw)"

definition left_power_law :: "dbl \<Rightarrow> dbl \<Rightarrow> dbl \<Rightarrow> dbl \<Rightarrow> dbl \<Rightarrow> dbl" where
  "left_power_law left_sigma alphaL nL1 nL2 fL =
     (let nL2_eff = (if nL2 < nL1 then nL1 else nL2);
          abs_alpha = fabs alphaL;
          BL1 = nL1 / abs_alpha - abs_alpha;
          BL2 = nL2_eff / abs_alpha - abs_alpha;
          AL1 = TMath_Power (nL1 / abs_alpha) nL1
                * exp_dbl (Fin (- 0.5) * abs_alpha * abs_alpha);
          AL2 = TMath_Power (nL2_eff / abs_alpha) nL2_eff
                * exp_dbl (Fin (- 0.5) * abs_alpha * abs_alpha);
          power_law1 = AL1 * TMath_Power (BL1 - left_sigma) (Fin (- 1) * nL1);
          power_law2 = AL2 * TMath_Power (BL2 - left_sigma) (Fin (- 1) * nL2_eff)
      in fL * power_law1 + (Fin 1 - fL) * power_law2)"

definition right_power_law :: "dbl \<Rightarrow> dbl \<Rightarrow> dbl \<Rightarrow> dbl \<Rightarrow> dbl \<Rightarrow> dbl" where
  "right_power_law right_sigma alphaR nR1 nR2 fR =
     (let nR2_eff = (if nR2 < nR1 then nR1 else nR2);
          abs_alpha = fabs alphaR;
          BR1 = nR1 / abs_alpha - abs_alpha;
          BR2 = nR2_eff / abs_alpha - abs_alpha;
          AR1 = TMath_Power (nR1 / abs_alpha) nR1
                * exp_dbl (Fin (- 0.5) * abs_alpha * abs_alpha);
          AR2 = TMath_Power (nR2_eff / abs_alpha) nR2_eff
                * exp_dbl (Fin (- 0.5) * abs_alpha * abs_alpha);
          power_law1 = AR1 * TMath_Power (BR1 + right_sigma) (Fin (- 1) * nR1);
          power_law2 = AR2 * TMath_Power (BR2 + right_sigma) (Fin (- 1) * nR2_eff)
      in fR * power_law1 + (Fin 1 - fR) * power_law2)"

definition gaussian :: "dbl \<Rightarrow> dbl" where
  "gaussian exp_arg = exp_dbl (Fin (- 0.5) * exp_arg * exp_arg)"

section \<open>RooGaussBern: Gaussian core with Bernstein-polynomial tails\<close>

text \<open>
  The two loops of \<^verbatim>\<open>RooGaussBern::evaluate\<close>, over \<^verbatim>\<open>i = 0 .. bern_order\<close> with the
  accumulator \<^verbatim>\<open>rval\<close>.  The counter is an \<^verbatim>\<open>Int_t\<close> that stays between 0 and the size of
  the coefficient list, so it is a natural number here; \<^verbatim>\<open>static_cast<double>\<close> of it is
  \<open>Fin (real i)\<close>.  The list is read at \<open>i\<close> only under \<open>i < bern_order\<close> (left) and at
  \<open>i - 1\<close> only under \<open>0 < i\<close> with \<open>i \<le> bern_order\<close> (right), always inside the list.
\<close>

function bern_loop_left :: "dbl \<Rightarrow> dbl list \<Rightarrow> dbl \<Rightarrow> nat \<Rightarrow> nat \<Rightarrow> dbl \<Rightarrow> dbl" where
  "bern_loop_left coef0 bernCoefsL x_scaled bern_order i rval =
     (if i \<le> bern_order then
        (let powone = Fin (real i);
             powtwo = Fin (real (bern_order - i));
             term_coef = (if i < bern_order then coef0 * (bernCoefsL ! i) else coef0)
         in bern_loop_left coef0 bernCoefsL x_scaled bern_order (Suc i)
              (rval + term_coef
                      * TMath_Power x_scaled powone
                      * TMath_Power (Fin 1 - x_scaled) powtwo))
      else rval)"
  by pat_completeness auto
termination
  by (relation "measure (\<lambda>(coef0, bernCoefsL, x_scaled, bern_order, i, rval). Suc bern_order - i)")
     auto

function bern_loop_right :: "dbl \<Rightarrow> dbl list \<Rightarrow> dbl \<Rightarrow> nat \<Rightarrow> nat \<Rightarrow> dbl \<Rightarrow> dbl" where
  "bern_loop_right coef0 bernCoefsR x_scaled bern_order i rval =
     (if i \<le> bern_order then
        (let powone = Fin (real i);
             powtwo = Fin (real (bern_order - i));
             term_coef = (if 0 < i then coef0 * (bernCoefsR ! (i - 1)) else coef0)
         in bern_loop_right coef0 bernCoefsR x_scaled bern_order (Suc i)
              (rval + term_coef
                      * TMath_Power x_scaled powone
                      * TMath_Power (Fin 1 - x_scaled) powtwo))
      else rval)"
  by pat_completeness auto
termination
  by (relation "measure (\<lambda>(coef0, bernCoefsR, x_scaled, bern_order, i, rval). Suc bern_order - i)")
     auto

text \<open>
  The loop equations rewrite a call into a term with a call; they are applied by hand.
\<close>

declare bern_loop_left.simps [simp del] bern_loop_right.simps [simp del]

text \<open>
  \<^verbatim>\<open>RooGaussBern::evaluate\<close>.  The arguments are the current values of the proxies in the
  order of the constructor; \<open>x_min\<close> and \<open>x_max\<close> are what \<^verbatim>\<open>x.min()\<close> and \<^verbatim>\<open>x.max()\<close> return,
  the edges of the range of the observable.
\<close>

definition RooGaussBern_evaluate ::
  "dbl \<Rightarrow> dbl \<Rightarrow> dbl \<Rightarrow> dbl \<Rightarrow> dbl \<Rightarrow> dbl \<Rightarrow> dbl \<Rightarrow> dbl list \<Rightarrow> dbl list \<Rightarrow> dbl" where
  "RooGaussBern_evaluate x x_min x_max x0 sigma alphaL alphaR bernCoefsL bernCoefsR =
     (let low_edge = x_min;
          high_edge = x_max;
          norm_dist = (x - x0) / sigma;
          rval = Fin 0
      in
      if norm_dist < Fin (- 1) * alphaL then
        (let boundary = x0 - alphaL * sigma;
             x_scaled = (x - low_edge) / (boundary - low_edge);
             bern_order = length bernCoefsL;
             coef0 = exp_dbl (Fin (- 0.5) * alphaL * alphaL)
         in bern_loop_left coef0 bernCoefsL x_scaled bern_order 0 rval)
      else if norm_dist < alphaR then
        (let exp_arg = (x - x0) / sigma
         in exp_dbl (Fin (- 0.5) * exp_arg * exp_arg))
      else
        (let boundary = x0 + alphaR * sigma;
             x_scaled = (x - boundary) / (high_edge - boundary);
             bern_order = length bernCoefsR;
             coef0 = exp_dbl (Fin (- 0.5) * alphaR * alphaR)
         in bern_loop_right coef0 bernCoefsR x_scaled bern_order 0 rval))"

text \<open>
  The three branches of its \<^verbatim>\<open>if\<close> chain: the conditions alone, and the bodies of the two
  polynomial branches (the Gaussian branch is \<open>gaussian\<close> again).
\<close>

datatype bern_region = LeftPolynomial | Gaussian | RightPolynomial

definition RooGaussBern_region :: "dbl \<Rightarrow> dbl \<Rightarrow> dbl \<Rightarrow> dbl \<Rightarrow> dbl \<Rightarrow> bern_region" where
  "RooGaussBern_region x x0 sigma alphaL alphaR =
     (let norm_dist = (x - x0) / sigma
      in
      if norm_dist < Fin (- 1) * alphaL then LeftPolynomial
      else if norm_dist < alphaR then Gaussian
      else RightPolynomial)"

definition left_polynomial :: "dbl \<Rightarrow> dbl \<Rightarrow> dbl \<Rightarrow> dbl \<Rightarrow> dbl \<Rightarrow> dbl list \<Rightarrow> dbl" where
  "left_polynomial x low_edge x0 sigma alphaL bernCoefsL =
     (let boundary = x0 - alphaL * sigma;
          x_scaled = (x - low_edge) / (boundary - low_edge);
          bern_order = length bernCoefsL;
          coef0 = exp_dbl (Fin (- 0.5) * alphaL * alphaL)
      in bern_loop_left coef0 bernCoefsL x_scaled bern_order 0 (Fin 0))"

definition right_polynomial :: "dbl \<Rightarrow> dbl \<Rightarrow> dbl \<Rightarrow> dbl \<Rightarrow> dbl \<Rightarrow> dbl list \<Rightarrow> dbl" where
  "right_polynomial x high_edge x0 sigma alphaR bernCoefsR =
     (let boundary = x0 + alphaR * sigma;
          x_scaled = (x - boundary) / (high_edge - boundary);
          bern_order = length bernCoefsR;
          coef0 = exp_dbl (Fin (- 0.5) * alphaR * alphaR)
      in bern_loop_right coef0 bernCoefsR x_scaled bern_order 0 (Fin 0))"

section \<open>The power-law branches over the reals\<close>

text \<open>
  The bodies of the two power-law branches of \<^verbatim>\<open>RooModDSCB::evaluate\<close> once more, every
  variable a real number and \<^verbatim>\<open>TMath::Power\<close> the real power: the closed forms that the
  program evaluates in doubles.  They say nothing about rounding or overflow, and they
  are meant where the bases of the powers are positive, as they are for \<open>alpha > 0\<close>,
  \<open>n1 > 0\<close> and a point of the tail (\<open>powr\<close> is 0 for the base 0, where \<^verbatim>\<open>pow\<close> with a
  negative exponent is infinite).
\<close>

definition left_power_law_real :: "real \<Rightarrow> real \<Rightarrow> real \<Rightarrow> real \<Rightarrow> real \<Rightarrow> real" where
  "left_power_law_real left_sigma alphaL nL1 nL2 fL =
     (let nL2_eff = (if nL2 < nL1 then nL1 else nL2);
          abs_alpha = \<bar>alphaL\<bar>;
          BL1 = nL1 / abs_alpha - abs_alpha;
          BL2 = nL2_eff / abs_alpha - abs_alpha;
          AL1 = (nL1 / abs_alpha) powr nL1 * exp (- 0.5 * abs_alpha * abs_alpha);
          AL2 = (nL2_eff / abs_alpha) powr nL2_eff * exp (- 0.5 * abs_alpha * abs_alpha);
          power_law1 = AL1 * (BL1 - left_sigma) powr (- 1 * nL1);
          power_law2 = AL2 * (BL2 - left_sigma) powr (- 1 * nL2_eff)
      in fL * power_law1 + (1 - fL) * power_law2)"

definition right_power_law_real :: "real \<Rightarrow> real \<Rightarrow> real \<Rightarrow> real \<Rightarrow> real \<Rightarrow> real" where
  "right_power_law_real right_sigma alphaR nR1 nR2 fR =
     (let nR2_eff = (if nR2 < nR1 then nR1 else nR2);
          abs_alpha = \<bar>alphaR\<bar>;
          BR1 = nR1 / abs_alpha - abs_alpha;
          BR2 = nR2_eff / abs_alpha - abs_alpha;
          AR1 = (nR1 / abs_alpha) powr nR1 * exp (- 0.5 * abs_alpha * abs_alpha);
          AR2 = (nR2_eff / abs_alpha) powr nR2_eff * exp (- 0.5 * abs_alpha * abs_alpha);
          power_law1 = AR1 * (BR1 + right_sigma) powr (- 1 * nR1);
          power_law2 = AR2 * (BR2 + right_sigma) powr (- 1 * nR2_eff)
      in fR * power_law1 + (1 - fR) * power_law2)"

section \<open>RooModDSCB in binary64 arithmetic\<close>

text \<open>
  The definitions above compute with exact reals.  The program computes with IEEE 754
  binary64 numbers: every operation returns the exact result rounded to the nearest
  number with a 53-bit significand (ties to the even significand), the numbers below
  \<open>2 ^ - 1022\<close> in magnitude are spaced \<open>2 ^ - 1074\<close> apart, and a result that rounds to
  \<open>2 ^ 1024\<close> or more in magnitude is the infinity of its sign.  \<open>binary64\<close> is that
  rounding.
\<close>

definition round_even :: "real \<Rightarrow> int" where
  "round_even t =
     (let f = \<lfloor>t\<rfloor>; r = t - of_int f
      in if r < 1 / 2 then f else if 1 / 2 < r then f + 1 else if even f then f else f + 1)"

definition binary64 :: "real \<Rightarrow> dbl" where
  "binary64 x =
     (if x = 0 then Fin 0
      else
        (let q = max \<lfloor>log 2 \<bar>x\<bar>\<rfloor> (- 1022) - 52;
             y = of_int (round_even (x / 2 powr (of_int q))) * 2 powr (of_int q)
         in if 2 ^ 1024 \<le> \<bar>y\<bar> then (if 0 < x then PInf else NInf) else Fin y))"

text \<open>
  The operators on doubles: the exact operation, rounded when it yields a number.  The
  library functions \<^verbatim>\<open>exp\<close> and \<^verbatim>\<open>pow\<close> are taken as correctly rounded (those of a C library
  may be off by a unit in the last place); \<^verbatim>\<open>fabs\<close> and the comparisons are exact.
\<close>

definition round_dbl :: "dbl \<Rightarrow> dbl" where
  "round_dbl v = (case v of Fin r \<Rightarrow> binary64 r | _ \<Rightarrow> v)"

definition fl_add :: "dbl \<Rightarrow> dbl \<Rightarrow> dbl" where
  "fl_add a b = round_dbl (a + b)"

definition fl_sub :: "dbl \<Rightarrow> dbl \<Rightarrow> dbl" where
  "fl_sub a b = round_dbl (a - b)"

definition fl_mul :: "dbl \<Rightarrow> dbl \<Rightarrow> dbl" where
  "fl_mul a b = round_dbl (a * b)"

definition fl_div :: "dbl \<Rightarrow> dbl \<Rightarrow> dbl" where
  "fl_div a b = round_dbl (a / b)"

definition fl_exp :: "dbl \<Rightarrow> dbl" where
  "fl_exp a = round_dbl (exp_dbl a)"

definition fl_pow :: "dbl \<Rightarrow> dbl \<Rightarrow> dbl" where
  "fl_pow x y = round_dbl (TMath_Power x y)"

text \<open>
  \<^verbatim>\<open>RooModDSCB::evaluate\<close> with these operators, statement by statement as before, and the
  bodies of its two power-law branches.
\<close>

definition RooModDSCB_evaluate_binary64 ::
  "dbl \<Rightarrow> dbl \<Rightarrow> dbl \<Rightarrow> dbl \<Rightarrow> dbl \<Rightarrow> dbl \<Rightarrow> dbl \<Rightarrow> dbl \<Rightarrow> dbl \<Rightarrow> dbl \<Rightarrow> dbl \<Rightarrow> dbl \<Rightarrow> dbl" where
  "RooModDSCB_evaluate_binary64 x x0 sigmaL sigmaR alphaL nL1 nL2 fL alphaR nR1 nR2 fR =
     (let left_sigma = fl_div (fl_sub x x0) sigmaL;
          right_sigma = fl_div (fl_sub x x0) sigmaR
      in
      if left_sigma < fl_mul (Fin (- 1)) alphaL then
        (let nL2_eff = (if nL2 < nL1 then nL1 else nL2);
             abs_alpha = fabs alphaL;
             BL1 = fl_sub (fl_div nL1 abs_alpha) abs_alpha;
             BL2 = fl_sub (fl_div nL2_eff abs_alpha) abs_alpha;
             AL1 = fl_mul (fl_pow (fl_div nL1 abs_alpha) nL1)
                     (fl_exp (fl_mul (fl_mul (Fin (- 0.5)) abs_alpha) abs_alpha));
             AL2 = fl_mul (fl_pow (fl_div nL2_eff abs_alpha) nL2_eff)
                     (fl_exp (fl_mul (fl_mul (Fin (- 0.5)) abs_alpha) abs_alpha));
             power_law1 = fl_mul AL1 (fl_pow (fl_sub BL1 left_sigma) (fl_mul (Fin (- 1)) nL1));
             power_law2 = fl_mul AL2 (fl_pow (fl_sub BL2 left_sigma) (fl_mul (Fin (- 1)) nL2_eff))
         in fl_add (fl_mul fL power_law1) (fl_mul (fl_sub (Fin 1) fL) power_law2))
      else if left_sigma < Fin 0 then
        (let exp_arg = fl_div (fl_sub x x0) sigmaL
         in fl_exp (fl_mul (fl_mul (Fin (- 0.5)) exp_arg) exp_arg))
      else if right_sigma < alphaR then
        (let exp_arg = fl_div (fl_sub x x0) sigmaR
         in fl_exp (fl_mul (fl_mul (Fin (- 0.5)) exp_arg) exp_arg))
      else
        (let nR2_eff = (if nR2 < nR1 then nR1 else nR2);
             abs_alpha = fabs alphaR;
             BR1 = fl_sub (fl_div nR1 abs_alpha) abs_alpha;
             BR2 = fl_sub (fl_div nR2_eff abs_alpha) abs_alpha;
             AR1 = fl_mul (fl_pow (fl_div nR1 abs_alpha) nR1)
                     (fl_exp (fl_mul (fl_mul (Fin (- 0.5)) abs_alpha) abs_alpha));
             AR2 = fl_mul (fl_pow (fl_div nR2_eff abs_alpha) nR2_eff)
                     (fl_exp (fl_mul (fl_mul (Fin (- 0.5)) abs_alpha) abs_alpha));
             power_law1 = fl_mul AR1 (fl_pow (fl_add BR1 right_sigma) (fl_mul (Fin (- 1)) nR1));
             power_law2 = fl_mul AR2 (fl_pow (fl_add BR2 right_sigma) (fl_mul (Fin (- 1)) nR2_eff))
         in fl_add (fl_mul fR power_law1) (fl_mul (fl_sub (Fin 1) fR) power_law2)))"

definition left_power_law_binary64 :: "dbl \<Rightarrow> dbl \<Rightarrow> dbl \<Rightarrow> dbl \<Rightarrow> dbl \<Rightarrow> dbl" where
  "left_power_law_binary64 left_sigma alphaL nL1 nL2 fL =
     (let nL2_eff = (if nL2 < nL1 then nL1 else nL2);
          abs_alpha = fabs alphaL;
          BL1 = fl_sub (fl_div nL1 abs_alpha) abs_alpha;
          BL2 = fl_sub (fl_div nL2_eff abs_alpha) abs_alpha;
          AL1 = fl_mul (fl_pow (fl_div nL1 abs_alpha) nL1)
                  (fl_exp (fl_mul (fl_mul (Fin (- 0.5)) abs_alpha) abs_alpha));
          AL2 = fl_mul (fl_pow (fl_div nL2_eff abs_alpha) nL2_eff)
                  (fl_exp (fl_mul (fl_mul (Fin (- 0.5)) abs_alpha) abs_alpha));
          power_law1 = fl_mul AL1 (fl_pow (fl_sub BL1 left_sigma) (fl_mul (Fin (- 1)) nL1));
          power_law2 = fl_mul AL2 (fl_pow (fl_sub BL2 left_sigma) (fl_mul (Fin (- 1)) nL2_eff))
      in fl_add (fl_mul fL power_law1) (fl_mul (fl_sub (Fin 1) fL) power_law2))"

definition right_power_law_binary64 :: "dbl \<Rightarrow> dbl \<Rightarrow> dbl \<Rightarrow> dbl \<Rightarrow> dbl \<Rightarrow> dbl" where
  "right_power_law_binary64 right_sigma alphaR nR1 nR2 fR =
     (let nR2_eff = (if nR2 < nR1 then nR1 else nR2);
          abs_alpha = fabs alphaR;
          BR1 = fl_sub (fl_div nR1 abs_alpha) abs_alpha;
          BR2 = fl_sub (fl_div nR2_eff abs_alpha) abs_alpha;
          AR1 = fl_mul (fl_pow (fl_div nR1 abs_alpha) nR1)
                  (fl_exp (fl_mul (fl_mul (Fin (- 0.5)) abs_alpha) abs_alpha));
          AR2 = fl_mul (fl_pow (fl_div nR2_eff abs_alpha) nR2_eff)
                  (fl_exp (fl_mul (fl_mul (Fin (- 0.5)) abs_alpha) abs_alpha));
          power_law1 = fl_mul AR1 (fl_pow (fl_add BR1 right_sigma) (fl_mul (Fin (- 1)) nR1));
          power_law2 = fl_mul AR2 (fl_pow (fl_add BR2 right_sigma) (fl_mul (Fin (- 1)) nR2_eff))
      in fl_add (fl_mul fR power_law1) (fl_mul (fl_sub (Fin 1) fR) power_law2))"

section \<open>RooGaussBern in binary64 arithmetic\<close>

text \<open>
  The two loops of \<^verbatim>\<open>RooGaussBern::evaluate\<close> and the function itself with the operators on
  doubles, statement by statement as before; \<^verbatim>\<open>static_cast<double>\<close> of the counter is exact.
\<close>

function bern_loop_left_binary64 :: "dbl \<Rightarrow> dbl list \<Rightarrow> dbl \<Rightarrow> nat \<Rightarrow> nat \<Rightarrow> dbl \<Rightarrow> dbl" where
  "bern_loop_left_binary64 coef0 bernCoefsL x_scaled bern_order i rval =
     (if i \<le> bern_order then
        (let powone = Fin (real i);
             powtwo = Fin (real (bern_order - i));
             term_coef = (if i < bern_order then fl_mul coef0 (bernCoefsL ! i) else coef0)
         in bern_loop_left_binary64 coef0 bernCoefsL x_scaled bern_order (Suc i)
              (fl_add rval
                 (fl_mul (fl_mul term_coef (fl_pow x_scaled powone))
                    (fl_pow (fl_sub (Fin 1) x_scaled) powtwo))))
      else rval)"
  by pat_completeness auto
termination
  by (relation "measure (\<lambda>(coef0, bernCoefsL, x_scaled, bern_order, i, rval). Suc bern_order - i)")
     auto

function bern_loop_right_binary64 :: "dbl \<Rightarrow> dbl list \<Rightarrow> dbl \<Rightarrow> nat \<Rightarrow> nat \<Rightarrow> dbl \<Rightarrow> dbl" where
  "bern_loop_right_binary64 coef0 bernCoefsR x_scaled bern_order i rval =
     (if i \<le> bern_order then
        (let powone = Fin (real i);
             powtwo = Fin (real (bern_order - i));
             term_coef = (if 0 < i then fl_mul coef0 (bernCoefsR ! (i - 1)) else coef0)
         in bern_loop_right_binary64 coef0 bernCoefsR x_scaled bern_order (Suc i)
              (fl_add rval
                 (fl_mul (fl_mul term_coef (fl_pow x_scaled powone))
                    (fl_pow (fl_sub (Fin 1) x_scaled) powtwo))))
      else rval)"
  by pat_completeness auto
termination
  by (relation "measure (\<lambda>(coef0, bernCoefsR, x_scaled, bern_order, i, rval). Suc bern_order - i)")
     auto

declare bern_loop_left_binary64.simps [simp del] bern_loop_right_binary64.simps [simp del]

definition RooGaussBern_evaluate_binary64 ::
  "dbl \<Rightarrow> dbl \<Rightarrow> dbl \<Rightarrow> dbl \<Rightarrow> dbl \<Rightarrow> dbl \<Rightarrow> dbl \<Rightarrow> dbl list \<Rightarrow> dbl list \<Rightarrow> dbl" where
  "RooGaussBern_evaluate_binary64 x x_min x_max x0 sigma alphaL alphaR bernCoefsL bernCoefsR =
     (let low_edge = x_min;
          high_edge = x_max;
          norm_dist = fl_div (fl_sub x x0) sigma;
          rval = Fin 0
      in
      if norm_dist < fl_mul (Fin (- 1)) alphaL then
        (let boundary = fl_sub x0 (fl_mul alphaL sigma);
             x_scaled = fl_div (fl_sub x low_edge) (fl_sub boundary low_edge);
             bern_order = length bernCoefsL;
             coef0 = fl_exp (fl_mul (fl_mul (Fin (- 0.5)) alphaL) alphaL)
         in bern_loop_left_binary64 coef0 bernCoefsL x_scaled bern_order 0 rval)
      else if norm_dist < alphaR then
        (let exp_arg = fl_div (fl_sub x x0) sigma
         in fl_exp (fl_mul (fl_mul (Fin (- 0.5)) exp_arg) exp_arg))
      else
        (let boundary = fl_add x0 (fl_mul alphaR sigma);
             x_scaled = fl_div (fl_sub x boundary) (fl_sub high_edge boundary);
             bern_order = length bernCoefsR;
             coef0 = fl_exp (fl_mul (fl_mul (Fin (- 0.5)) alphaR) alphaR)
         in bern_loop_right_binary64 coef0 bernCoefsR x_scaled bern_order 0 rval))"

text \<open>The conditions of its \<^verbatim>\<open>if\<close> chain alone.\<close>

definition RooGaussBern_region_binary64 :: "dbl \<Rightarrow> dbl \<Rightarrow> dbl \<Rightarrow> dbl \<Rightarrow> dbl \<Rightarrow> bern_region" where
  "RooGaussBern_region_binary64 x x0 sigma alphaL alphaR =
     (let norm_dist = fl_div (fl_sub x x0) sigma
      in
      if norm_dist < fl_mul (Fin (- 1)) alphaL then LeftPolynomial
      else if norm_dist < alphaR then Gaussian
      else RightPolynomial)"

section \<open>Arithmetic of the value type\<close>

lemma minus_Fin [simp]: "Fin a - Fin b = Fin (a - b)"
  by (simp add: minus_dbl_def)

lemma neg_one_times: "Fin (- 1) * a = - a"
  by (cases a) auto

lemma uminus_uminus_dbl [simp]: "- (- a) = (a::dbl)"
  by (cases a) auto

lemma less_dbl_irrefl [simp]: "\<not> (a::dbl) < a"
  by (cases a) auto

lemma times_Fin_assoc: "Fin c * z * z = Fin c * (z * z)"
  by (cases z) auto

lemma Fin_zero_plus [simp]: "Fin 0 + a = a"
  by (cases a) auto

lemma times_Fin_one [simp]: "a * Fin 1 = a"
  by (cases a) auto

lemma TMath_Power_zero [simp]: "TMath_Power a (Fin 0) = Fin 1"
  by (cases a) auto

lemma times_NaN [simp]: "a * NaN = NaN"
  by (cases a) auto

lemma plus_NaN [simp]: "a + NaN = NaN"
  by (cases a) auto

section \<open>The branches of RooModDSCB::evaluate\<close>

lemma RooModDSCB_evaluate_region:
  "RooModDSCB_evaluate x x0 sigmaL sigmaR alphaL nL1 nL2 fL alphaR nR1 nR2 fR =
     (case RooModDSCB_region x x0 sigmaL sigmaR alphaL alphaR of
        LeftPowerLaw \<Rightarrow> left_power_law ((x - x0) / sigmaL) alphaL nL1 nL2 fL
      | LeftGaussian \<Rightarrow> gaussian ((x - x0) / sigmaL)
      | RightGaussian \<Rightarrow> gaussian ((x - x0) / sigmaR)
      | RightPowerLaw \<Rightarrow> right_power_law ((x - x0) / sigmaR) alphaR nR1 nR2 fR)"
  by (simp add: RooModDSCB_evaluate_def RooModDSCB_region_def left_power_law_def
      right_power_law_def gaussian_def Let_def)

text \<open>
  C1.  For every input and every value of the parameters, special values included,
  \<^verbatim>\<open>RooModDSCB::evaluate\<close> returns the left power-law tail if
  \<open>(x - x0) / sigmaL < - alphaL\<close>; else the Gaussian \<open>exp (- 0.5 z\<^sup>2)\<close> of
  \<open>z = (x - x0) / sigmaL\<close> if that is below 0; else the Gaussian of \<open>z = (x - x0) / sigmaR\<close>
  if that is below \<open>alphaR\<close>; else the right power-law tail.
\<close>

theorem RooModDSCB_evaluate_dispatch:
  "RooModDSCB_evaluate x x0 sigmaL sigmaR alphaL nL1 nL2 fL alphaR nR1 nR2 fR =
     (if (x - x0) / sigmaL < - alphaL then
        left_power_law ((x - x0) / sigmaL) alphaL nL1 nL2 fL
      else if (x - x0) / sigmaL < Fin 0 then
        exp_dbl (Fin (- 0.5) * (((x - x0) / sigmaL) * ((x - x0) / sigmaL)))
      else if (x - x0) / sigmaR < alphaR then
        exp_dbl (Fin (- 0.5) * (((x - x0) / sigmaR) * ((x - x0) / sigmaR)))
      else
        right_power_law ((x - x0) / sigmaR) alphaR nR1 nR2 fR)"
  by (simp add: RooModDSCB_evaluate_region RooModDSCB_region_def gaussian_def Let_def
      neg_one_times times_Fin_assoc)

section \<open>The two tails mirror each other\<close>

text \<open>The right tail is the left tail mirrored: \<open>B + z\<close> is \<open>B - (- z)\<close>.\<close>

lemma left_power_law_mirror:
  "left_power_law z alpha n1 n2 f = right_power_law (- z) alpha n1 n2 f"
  by (simp add: left_power_law_def right_power_law_def minus_dbl_def)

section \<open>Clamping of the second exponent\<close>

lemma left_power_law_clamp:
  "nL2 < nL1 \<Longrightarrow> left_power_law z alphaL nL1 nL2 fL = left_power_law z alphaL nL1 nL1 fL"
  by (simp add: left_power_law_def)

lemma right_power_law_clamp:
  "nR2 < nR1 \<Longrightarrow> right_power_law z alphaR nR1 nR2 fR = right_power_law z alphaR nR1 nR1 fR"
  by (simp add: right_power_law_def)

lemma left_power_law_max:
  "left_power_law z alphaL (Fin n1) (Fin n2) fL
   = left_power_law z alphaL (Fin n1) (Fin (max n1 n2)) fL"
  by (simp add: left_power_law_def max_def)

lemma right_power_law_max:
  "right_power_law z alphaR (Fin n1) (Fin n2) fR
   = right_power_law z alphaR (Fin n1) (Fin (max n1 n2)) fR"
  by (simp add: right_power_law_def max_def)

text \<open>
  C4.  For every input and every value of the other parameters, special values included:
  if \<open>nL2 < nL1\<close> then \<^verbatim>\<open>evaluate\<close> returns what it returns with \<open>nL2\<close> replaced by \<open>nL1\<close>,
  and if \<open>nR2 < nR1\<close> what it returns with \<open>nR2\<close> replaced by \<open>nR1\<close>, each side on its own.
  For finite exponents the result is the one for \<open>max nL1 nL2\<close> and \<open>max nR1 nR2\<close> in place
  of \<open>nL2\<close> and \<open>nR2\<close>: it depends on the second exponents through these maxima only.
\<close>

theorem exponent_clamping:
  "(nL2 < nL1 \<longrightarrow>
      RooModDSCB_evaluate x x0 sigmaL sigmaR alphaL nL1 nL2 fL alphaR nR1 nR2 fR
      = RooModDSCB_evaluate x x0 sigmaL sigmaR alphaL nL1 nL1 fL alphaR nR1 nR2 fR)
   \<and> (nR2 < nR1 \<longrightarrow>
      RooModDSCB_evaluate x x0 sigmaL sigmaR alphaL nL1 nL2 fL alphaR nR1 nR2 fR
      = RooModDSCB_evaluate x x0 sigmaL sigmaR alphaL nL1 nL2 fL alphaR nR1 nR1 fR)
   \<and> RooModDSCB_evaluate x x0 sigmaL sigmaR alphaL (Fin a1) (Fin a2) fL alphaR (Fin b1) (Fin b2) fR
      = RooModDSCB_evaluate x x0 sigmaL sigmaR alphaL (Fin a1) (Fin (max a1 a2)) fL
          alphaR (Fin b1) (Fin (max b1 b2)) fR"
  by (auto simp: RooModDSCB_evaluate_region left_power_law_clamp right_power_law_clamp
      left_power_law_max[symmetric] right_power_law_max[symmetric]
      split: dscb_region.splits)

theorem exponent_clamping_witness:
  "Fin 2 < Fin 3 \<and> Fin 1 < Fin 4
   \<and> RooModDSCB_evaluate (Fin (- 5)) (Fin 0) (Fin 1) (Fin 1) (Fin 1) (Fin 3) (Fin 2) (Fin 0.5)
         (Fin 1) (Fin 4) (Fin 1) (Fin 0.5)
       = RooModDSCB_evaluate (Fin (- 5)) (Fin 0) (Fin 1) (Fin 1) (Fin 1) (Fin 3) (Fin 3) (Fin 0.5)
         (Fin 1) (Fin 4) (Fin 1) (Fin 0.5)
   \<and> RooModDSCB_evaluate (Fin (- 5)) (Fin 0) (Fin 1) (Fin 1) (Fin 1) (Fin 3) (Fin 2) (Fin 0.5)
         (Fin 1) (Fin 4) (Fin 1) (Fin 0.5)
       = RooModDSCB_evaluate (Fin (- 5)) (Fin 0) (Fin 1) (Fin 1) (Fin 1) (Fin 3) (Fin 2) (Fin 0.5)
         (Fin 1) (Fin 4) (Fin 4) (Fin 0.5)"
proof -
  have h: "Fin 2 < Fin 3" "Fin 1 < Fin 4"
    by simp_all
  show ?thesis
    using h exponent_clamping[of "Fin 2" "Fin 3" "Fin (- 5)" "Fin 0" "Fin 1" "Fin 1" "Fin 1"
      "Fin 0.5" "Fin 1" "Fin 4" "Fin 1" "Fin 0.5"]
    by blast
qed

section \<open>The deep left tail of a concrete shape\<close>

lemma deep_left_tail_value:
  assumes "x < - 1"
  shows "RooModDSCB_evaluate (Fin x) (Fin 0) (Fin 1) (Fin 1) (Fin 1) (Fin 2) (Fin 2) (Fin 1)
           (Fin 1) (Fin 2) (Fin 2) (Fin 1) = Fin (4 * exp (- 1 / 2) * (1 - x) powr (- 2))"
  using assms
  by (simp add: RooModDSCB_evaluate_region RooModDSCB_region_def left_power_law_def Let_def)

section \<open>The Gaussian is even\<close>

lemma gaussian_uminus: "gaussian (- z) = gaussian z"
  by (cases z) (auto simp: gaussian_def)

lemma RooModDSCB_evaluate_if:
  "RooModDSCB_evaluate x x0 sigmaL sigmaR alphaL nL1 nL2 fL alphaR nR1 nR2 fR =
     (if (x - x0) / sigmaL < Fin (- 1) * alphaL then
        left_power_law ((x - x0) / sigmaL) alphaL nL1 nL2 fL
      else if (x - x0) / sigmaL < Fin 0 then gaussian ((x - x0) / sigmaL)
      else if (x - x0) / sigmaR < alphaR then gaussian ((x - x0) / sigmaR)
      else right_power_law ((x - x0) / sigmaR) alphaR nR1 nR2 fR)"
  by (simp add: RooModDSCB_evaluate_region RooModDSCB_region_def Let_def)

section \<open>Which region a boundary point belongs to\<close>

lemma RooGaussBern_evaluate_region:
  "RooGaussBern_evaluate x x_min x_max x0 sigma alphaL alphaR bernCoefsL bernCoefsR =
     (case RooGaussBern_region x x0 sigma alphaL alphaR of
        LeftPolynomial \<Rightarrow> left_polynomial x x_min x0 sigma alphaL bernCoefsL
      | Gaussian \<Rightarrow> gaussian ((x - x0) / sigma)
      | RightPolynomial \<Rightarrow> right_polynomial x x_max x0 sigma alphaR bernCoefsR)"
  by (simp add: RooGaussBern_evaluate_def RooGaussBern_region_def left_polynomial_def
      right_polynomial_def gaussian_def Let_def)

text \<open>
  C2.  As stated the claim fails on the left: with \<open>x0 = 0\<close>, width 1 and \<open>alphaL = 1\<close> the
  point \<open>x = - 1\<close> has \<open>(x - x0) / sigma\<close> equal to \<open>- alphaL\<close>, and both shapes put it in
  the Gaussian region, not in the left tail: the test is the strict \<open>z < - alphaL\<close>.
\<close>

theorem left_boundary_not_tail:
  "(Fin (- 1) - Fin 0) / Fin 1 = - Fin 1
   \<and> RooModDSCB_region (Fin (- 1)) (Fin 0) (Fin 1) (Fin 1) (Fin 1) (Fin 1) = LeftGaussian
   \<and> RooModDSCB_region (Fin (- 1)) (Fin 0) (Fin 1) (Fin 1) (Fin 1) (Fin 1) \<noteq> LeftPowerLaw
   \<and> RooGaussBern_region (Fin (- 1)) (Fin 0) (Fin 1) (Fin 1) (Fin 1) = Gaussian
   \<and> RooGaussBern_region (Fin (- 1)) (Fin 0) (Fin 1) (Fin 1) (Fin 1) \<noteq> LeftPolynomial"
  by (simp add: RooModDSCB_region_def RooGaussBern_region_def)

text \<open>
  C2, as amended.  For both shapes and all values of the parameters, a point whose
  normalised distance equals \<open>- alphaL\<close> is never in the left tail, and a point whose
  normalised distance equals \<open>alphaR\<close> is never in the (right) Gaussian region.  With
  positive widths and positive boundaries the left boundary point \<open>x0 - alphaL sigma\<close> is in
  the Gaussian region (the left one of the double power-law shape) and the right boundary
  point \<open>x0 + alphaR sigma\<close> is in the right tail.
\<close>

theorem boundary_assignment:
  "((x - x0) / sigmaL = - alphaL \<longrightarrow>
      RooModDSCB_region x x0 sigmaL sigmaR alphaL alphaR \<noteq> LeftPowerLaw)
   \<and> ((x - x0) / sigmaR = alphaR \<longrightarrow>
      RooModDSCB_region x x0 sigmaL sigmaR alphaL alphaR \<noteq> RightGaussian)
   \<and> ((x - x0) / sigma = - alphaL \<longrightarrow>
      RooGaussBern_region x x0 sigma alphaL alphaR \<noteq> LeftPolynomial)
   \<and> ((x - x0) / sigma = alphaR \<longrightarrow>
      RooGaussBern_region x x0 sigma alphaL alphaR \<noteq> Gaussian)
   \<and> (0 < sL \<and> 0 < sR \<and> 0 < s \<and> 0 < aL \<and> 0 < aR \<longrightarrow>
      RooModDSCB_region (Fin (c - aL * sL)) (Fin c) (Fin sL) (Fin sR) (Fin aL) (Fin aR)
        = LeftGaussian
      \<and> RooModDSCB_region (Fin (c + aR * sR)) (Fin c) (Fin sL) (Fin sR) (Fin aL) (Fin aR)
        = RightPowerLaw
      \<and> RooGaussBern_region (Fin (c - aL * s)) (Fin c) (Fin s) (Fin aL) (Fin aR) = Gaussian
      \<and> RooGaussBern_region (Fin (c + aR * s)) (Fin c) (Fin s) (Fin aL) (Fin aR)
        = RightPolynomial)"
proof (intro conjI impI)
  assume "(x - x0) / sigmaL = - alphaL"
  then show "RooModDSCB_region x x0 sigmaL sigmaR alphaL alphaR \<noteq> LeftPowerLaw"
    by (simp add: RooModDSCB_region_def neg_one_times)
next
  assume "(x - x0) / sigmaR = alphaR"
  then show "RooModDSCB_region x x0 sigmaL sigmaR alphaL alphaR \<noteq> RightGaussian"
    by (simp add: RooModDSCB_region_def Let_def)
next
  assume "(x - x0) / sigma = - alphaL"
  then show "RooGaussBern_region x x0 sigma alphaL alphaR \<noteq> LeftPolynomial"
    by (simp add: RooGaussBern_region_def neg_one_times)
next
  assume "(x - x0) / sigma = alphaR"
  then show "RooGaussBern_region x x0 sigma alphaL alphaR \<noteq> Gaussian"
    by (simp add: RooGaussBern_region_def Let_def)
next
  assume h: "0 < sL \<and> 0 < sR \<and> 0 < s \<and> 0 < aL \<and> 0 < aR"
  then show "RooModDSCB_region (Fin (c - aL * sL)) (Fin c) (Fin sL) (Fin sR) (Fin aL) (Fin aR)
        = LeftGaussian"
    by (simp add: RooModDSCB_region_def)
  from h have q: "0 < aR * sR / sL" and aL: "0 < aL"
    by simp_all
  have n: "\<not> aR * sR / sL < - aL" "\<not> aR * sR / sL < 0"
    using q aL by linarith+
  have z: "(Fin (c + aR * sR) - Fin c) / Fin sL = Fin (aR * sR / sL)"
    "(Fin (c + aR * sR) - Fin c) / Fin sR = Fin aR"
    using h by simp_all
  show "RooModDSCB_region (Fin (c + aR * sR)) (Fin c) (Fin sL) (Fin sR) (Fin aL) (Fin aR)
        = RightPowerLaw"
    unfolding RooModDSCB_region_def Let_def z neg_one_times uminus_dbl.simps less_dbl.simps
    by (simp only: n if_False less_irrefl)
  from h show "RooGaussBern_region (Fin (c - aL * s)) (Fin c) (Fin s) (Fin aL) (Fin aR) = Gaussian"
    by (simp add: RooGaussBern_region_def)
  from h show "RooGaussBern_region (Fin (c + aR * s)) (Fin c) (Fin s) (Fin aL) (Fin aR)
        = RightPolynomial"
    by (simp add: RooGaussBern_region_def)
qed

theorem boundary_assignment_witness:
  "(Fin (- 2) - Fin 0) / Fin 2 = - Fin 1
   \<and> RooModDSCB_region (Fin (- 2)) (Fin 0) (Fin 2) (Fin 2) (Fin 1) (Fin 1) \<noteq> LeftPowerLaw
   \<and> RooGaussBern_region (Fin (- 2)) (Fin 0) (Fin 2) (Fin 1) (Fin 1) \<noteq> LeftPolynomial
   \<and> (Fin 2 - Fin 0) / Fin 2 = Fin 1
   \<and> RooModDSCB_region (Fin 2) (Fin 0) (Fin 2) (Fin 2) (Fin 1) (Fin 1) \<noteq> RightGaussian
   \<and> RooGaussBern_region (Fin 2) (Fin 0) (Fin 2) (Fin 1) (Fin 1) \<noteq> Gaussian
   \<and> (0::real) < 2 \<and> (0::real) < 1
   \<and> RooModDSCB_region (Fin (0 - 1 * 2)) (Fin 0) (Fin 2) (Fin 2) (Fin 1) (Fin 1) = LeftGaussian
   \<and> RooModDSCB_region (Fin (0 + 1 * 2)) (Fin 0) (Fin 2) (Fin 2) (Fin 1) (Fin 1) = RightPowerLaw
   \<and> RooGaussBern_region (Fin (0 - 1 * 2)) (Fin 0) (Fin 2) (Fin 1) (Fin 1) = Gaussian
   \<and> RooGaussBern_region (Fin (0 + 1 * 2)) (Fin 0) (Fin 2) (Fin 1) (Fin 1) = RightPolynomial"
proof -
  have l: "(Fin (- 2) - Fin 0) / Fin 2 = - Fin 1" and r: "(Fin 2 - Fin 0) / Fin 2 = Fin 1"
    and p: "(0::real) < 2" "(0::real) < 1"
    by simp_all
  note a = boundary_assignment[of "Fin (- 2)" "Fin 0" "Fin 2" "Fin 1" "Fin 2" "Fin 1" "Fin 2"
      2 2 2 1 1 0]
  note b = boundary_assignment[of "Fin 2" "Fin 0" "Fin 2" "Fin 1" "Fin 2" "Fin 1" "Fin 2"
      2 2 2 1 1 0]
  show ?thesis
    using l r p a b by blast
qed

section \<open>The Bernstein loops as sums\<close>

text \<open>A power with an exponent cast from the loop counter is the power of the reals.\<close>

lemma TMath_Power_nat: "TMath_Power (Fin x) (Fin (real n)) = Fin (x ^ n)"
proof (cases "n = 0")
  case True
  then show ?thesis by simp
next
  case False
  then show ?thesis
    by (cases "0 < x") (auto simp: powr_realpow is_int_def power_int_def)
qed

lemma bern_loop_left_step:
  assumes "i \<le> m"
  shows "bern_loop_left (Fin c0) cs (Fin u) m i rval
         = bern_loop_left (Fin c0) cs (Fin u) m (Suc i)
             (rval + (if i < m then Fin c0 * (cs ! i) else Fin c0)
                       * Fin (u ^ i) * Fin ((1 - u) ^ (m - i)))"
  by (subst bern_loop_left.simps) (simp only: assms Let_def minus_Fin TMath_Power_nat if_True)

lemma bern_loop_left_exit:
  "\<not> i \<le> m \<Longrightarrow> bern_loop_left coef0 cs x_scaled m i rval = rval"
  by (subst bern_loop_left.simps) simp

lemma bern_loop_right_step:
  assumes "i \<le> m"
  shows "bern_loop_right (Fin c0) cs (Fin u) m i rval
         = bern_loop_right (Fin c0) cs (Fin u) m (Suc i)
             (rval + (if 0 < i then Fin c0 * (cs ! (i - 1)) else Fin c0)
                       * Fin (u ^ i) * Fin ((1 - u) ^ (m - i)))"
  by (subst bern_loop_right.simps) (simp only: assms Let_def minus_Fin TMath_Power_nat if_True)

lemma bern_loop_right_exit:
  "\<not> i \<le> m \<Longrightarrow> bern_loop_right coef0 cs x_scaled m i rval = rval"
  by (subst bern_loop_right.simps) simp

lemma bern_loop_left_sum:
  assumes "i \<le> Suc (length cs)"
  shows "bern_loop_left (Fin c0) (map Fin cs) (Fin u) (length cs) i (Fin r)
         = Fin (r + (\<Sum>j = i..length cs.
                      (if j < length cs then c0 * cs ! j else c0) * u ^ j * (1 - u) ^ (length cs - j)))"
  using assms
proof (induction "Suc (length cs) - i" arbitrary: i r)
  case 0
  then have "\<not> i \<le> length cs" "{i..length cs} = {}"
    by simp_all
  then show ?case
    by (simp add: bern_loop_left_exit)
next
  case (Suc k)
  then have le: "i \<le> length cs" and k: "k = Suc (length cs) - Suc i"
    and le': "Suc i \<le> Suc (length cs)"
    by simp_all
  have split: "{i..length cs} = insert i {Suc i..length cs}"
    using le by auto
  have "bern_loop_left (Fin c0) (map Fin cs) (Fin u) (length cs) i (Fin r)
        = bern_loop_left (Fin c0) (map Fin cs) (Fin u) (length cs) (Suc i)
            (Fin (r + (if i < length cs then c0 * cs ! i else c0) * u ^ i * (1 - u) ^ (length cs - i)))"
    by (simp add: bern_loop_left_step[OF le])
  also have "\<dots> = Fin (r + (if i < length cs then c0 * cs ! i else c0) * u ^ i * (1 - u) ^ (length cs - i)
                 + (\<Sum>j = Suc i..length cs.
                      (if j < length cs then c0 * cs ! j else c0) * u ^ j * (1 - u) ^ (length cs - j)))"
    by (rule Suc.hyps(1)[OF k le'])
  finally show ?case
    by (simp add: split add.assoc)
qed

lemma bern_loop_right_sum:
  assumes "i \<le> Suc (length cs)"
  shows "bern_loop_right (Fin c0) (map Fin cs) (Fin u) (length cs) i (Fin r)
         = Fin (r + (\<Sum>j = i..length cs.
                      (if 0 < j then c0 * cs ! (j - 1) else c0) * u ^ j * (1 - u) ^ (length cs - j)))"
  using assms
proof (induction "Suc (length cs) - i" arbitrary: i r)
  case 0
  then have "\<not> i \<le> length cs" "{i..length cs} = {}"
    by simp_all
  then show ?case
    by (simp add: bern_loop_right_exit)
next
  case (Suc k)
  then have le: "i \<le> length cs" and k: "k = Suc (length cs) - Suc i"
    and le': "Suc i \<le> Suc (length cs)"
    by simp_all
  have split: "{i..length cs} = insert i {Suc i..length cs}"
    using le by auto
  have "bern_loop_right (Fin c0) (map Fin cs) (Fin u) (length cs) i (Fin r)
        = bern_loop_right (Fin c0) (map Fin cs) (Fin u) (length cs) (Suc i)
            (Fin (r + (if 0 < i then c0 * cs ! (i - 1) else c0) * u ^ i * (1 - u) ^ (length cs - i)))"
    using le by (simp add: bern_loop_right_step[OF le])
  also have "\<dots> = Fin (r + (if 0 < i then c0 * cs ! (i - 1) else c0) * u ^ i * (1 - u) ^ (length cs - i)
                 + (\<Sum>j = Suc i..length cs.
                      (if 0 < j then c0 * cs ! (j - 1) else c0) * u ^ j * (1 - u) ^ (length cs - j)))"
    by (rule Suc.hyps(1)[OF k le'])
  finally show ?case
    by (simp add: split add.assoc)
qed

lemma bern_loop_left_empty: "bern_loop_left coef0 [] x_scaled 0 0 (Fin 0) = coef0"
  apply (subst bern_loop_left.simps)
  apply (subst bern_loop_left.simps)
  apply (simp add: Let_def)
  done

lemma bern_loop_right_empty: "bern_loop_right coef0 [] x_scaled 0 0 (Fin 0) = coef0"
  apply (subst bern_loop_right.simps)
  apply (subst bern_loop_right.simps)
  apply (simp add: Let_def)
  done

section \<open>The Bernstein tails\<close>

lemma bern_loop_left_sum0:
  "bern_loop_left (Fin c0) (map Fin cs) (Fin u) (length cs) 0 (Fin 0)
   = Fin (\<Sum>i = 0..length cs.
            (if i < length cs then c0 * cs ! i else c0) * u ^ i * (1 - u) ^ (length cs - i))"
  using bern_loop_left_sum[of 0 cs c0 u 0] by simp

lemma bern_loop_right_sum0:
  "bern_loop_right (Fin c0) (map Fin cs) (Fin u) (length cs) 0 (Fin 0)
   = Fin (\<Sum>i = 0..length cs.
            (if 0 < i then c0 * cs ! (i - 1) else c0) * u ^ i * (1 - u) ^ (length cs - i))"
  using bern_loop_right_sum[of 0 cs c0 u 0] by simp

lemma coef0_Fin:
  "exp_dbl (Fin (- 0.5) * Fin a * Fin a) = Fin (exp (- 0.5 * a\<^sup>2))"
  by (simp add: power2_eq_square)

lemma left_polynomial_sum:
  assumes "x0 - alphaL * sigma - lo \<noteq> 0"
  shows "left_polynomial (Fin x) (Fin lo) (Fin x0) (Fin sigma) (Fin alphaL) (map Fin cs)
         = Fin (\<Sum>i = 0..length cs.
                  (if i < length cs then exp (- 0.5 * alphaL\<^sup>2) * cs ! i else exp (- 0.5 * alphaL\<^sup>2))
                  * ((x - lo) / (x0 - alphaL * sigma - lo)) ^ i
                  * (1 - (x - lo) / (x0 - alphaL * sigma - lo)) ^ (length cs - i))"
proof -
  have u: "(Fin x - Fin lo) / (Fin x0 - Fin alphaL * Fin sigma - Fin lo)
           = Fin ((x - lo) / (x0 - alphaL * sigma - lo))"
    using assms by simp
  show ?thesis
    unfolding left_polynomial_def Let_def coef0_Fin u length_map
    by (rule bern_loop_left_sum0)
qed

lemma right_polynomial_sum:
  assumes "hi - (x0 + alphaR * sigma) \<noteq> 0"
  shows "right_polynomial (Fin x) (Fin hi) (Fin x0) (Fin sigma) (Fin alphaR) (map Fin cs)
         = Fin (\<Sum>i = 0..length cs.
                  (if 0 < i then exp (- 0.5 * alphaR\<^sup>2) * cs ! (i - 1) else exp (- 0.5 * alphaR\<^sup>2))
                  * ((x - (x0 + alphaR * sigma)) / (hi - (x0 + alphaR * sigma))) ^ i
                  * (1 - (x - (x0 + alphaR * sigma)) / (hi - (x0 + alphaR * sigma))) ^ (length cs - i))"
proof -
  have u: "(Fin x - (Fin x0 + Fin alphaR * Fin sigma)) / (Fin hi - (Fin x0 + Fin alphaR * Fin sigma))
           = Fin ((x - (x0 + alphaR * sigma)) / (hi - (x0 + alphaR * sigma)))"
    using assms by simp
  show ?thesis
    unfolding right_polynomial_def Let_def coef0_Fin u length_map
    by (rule bern_loop_right_sum0)
qed

text \<open>
  C5.  For finite arguments, with \<open>m\<close> the length of the coefficient list of the side and
  \<open>coef0 = exp (- 0.5 alpha\<^sup>2)\<close>, the value returned in a tail is the sum over
  \<open>i = 0..m\<close> of \<open>termCoef i * u ^ i * (1 - u) ^ (m - i)\<close>.  On the left
  \<open>u = (x - low_edge) / (boundary - low_edge)\<close>, \<open>termCoef i = coef0 * coefs ! i\<close> for
  \<open>i < m\<close> and \<open>termCoef m = coef0\<close>; on the right
  \<open>u = (x - boundary) / (high_edge - boundary)\<close>, \<open>termCoef i = coef0 * coefs ! (i - 1)\<close> for
  \<open>0 < i\<close> and \<open>termCoef 0 = coef0\<close>.  The boundary is not on the domain edge, so that
  \<open>u\<close> is a number.
\<close>

theorem bernstein_tail_sum:
  "(RooGaussBern_region (Fin x) (Fin x0) (Fin sigma) (Fin alphaL) (Fin alphaR) = LeftPolynomial
      \<and> x0 - alphaL * sigma - lo \<noteq> 0 \<longrightarrow>
    RooGaussBern_evaluate (Fin x) (Fin lo) (Fin hi) (Fin x0) (Fin sigma) (Fin alphaL) (Fin alphaR)
      (map Fin csL) (map Fin csR)
    = Fin (let m = length csL;
               u = (x - lo) / (x0 - alphaL * sigma - lo);
               coef0 = exp (- 0.5 * alphaL\<^sup>2)
           in \<Sum>i = 0..m. (if i < m then coef0 * csL ! i else coef0) * u ^ i * (1 - u) ^ (m - i)))
   \<and> (RooGaussBern_region (Fin x) (Fin x0) (Fin sigma) (Fin alphaL) (Fin alphaR) = RightPolynomial
      \<and> hi - (x0 + alphaR * sigma) \<noteq> 0 \<longrightarrow>
    RooGaussBern_evaluate (Fin x) (Fin lo) (Fin hi) (Fin x0) (Fin sigma) (Fin alphaL) (Fin alphaR)
      (map Fin csL) (map Fin csR)
    = Fin (let m = length csR;
               u = (x - (x0 + alphaR * sigma)) / (hi - (x0 + alphaR * sigma));
               coef0 = exp (- 0.5 * alphaR\<^sup>2)
           in \<Sum>i = 0..m. (if 0 < i then coef0 * csR ! (i - 1) else coef0) * u ^ i * (1 - u) ^ (m - i)))"
proof (intro conjI impI; elim conjE)
  assume r: "RooGaussBern_region (Fin x) (Fin x0) (Fin sigma) (Fin alphaL) (Fin alphaR) = LeftPolynomial"
    and n: "x0 - alphaL * sigma - lo \<noteq> 0"
  show "RooGaussBern_evaluate (Fin x) (Fin lo) (Fin hi) (Fin x0) (Fin sigma) (Fin alphaL) (Fin alphaR)
      (map Fin csL) (map Fin csR)
    = Fin (let m = length csL;
               u = (x - lo) / (x0 - alphaL * sigma - lo);
               coef0 = exp (- 0.5 * alphaL\<^sup>2)
           in \<Sum>i = 0..m. (if i < m then coef0 * csL ! i else coef0) * u ^ i * (1 - u) ^ (m - i))"
    unfolding Let_def RooGaussBern_evaluate_region r bern_region.case
    by (rule left_polynomial_sum[OF n])
next
  assume r: "RooGaussBern_region (Fin x) (Fin x0) (Fin sigma) (Fin alphaL) (Fin alphaR) = RightPolynomial"
    and n: "hi - (x0 + alphaR * sigma) \<noteq> 0"
  show "RooGaussBern_evaluate (Fin x) (Fin lo) (Fin hi) (Fin x0) (Fin sigma) (Fin alphaL) (Fin alphaR)
      (map Fin csL) (map Fin csR)
    = Fin (let m = length csR;
               u = (x - (x0 + alphaR * sigma)) / (hi - (x0 + alphaR * sigma));
               coef0 = exp (- 0.5 * alphaR\<^sup>2)
           in \<Sum>i = 0..m. (if 0 < i then coef0 * csR ! (i - 1) else coef0) * u ^ i * (1 - u) ^ (m - i))"
    unfolding Let_def RooGaussBern_evaluate_region r bern_region.case
    by (rule right_polynomial_sum[OF n])
qed

theorem bernstein_tail_sum_witness:
  "RooGaussBern_region (Fin (- 3)) (Fin 0) (Fin 1) (Fin 1) (Fin 1) = LeftPolynomial
   \<and> (0::real) - 1 * 1 - (- 5) \<noteq> 0
   \<and> RooGaussBern_evaluate (Fin (- 3)) (Fin (- 5)) (Fin 5) (Fin 0) (Fin 1) (Fin 1) (Fin 1)
        (map Fin [2]) (map Fin [3])
      = Fin (exp (- 0.5 * 1\<^sup>2) * 2 * (1 - (- 3 - (- 5)) / (0 - 1 * 1 - (- 5)))
             + exp (- 0.5 * 1\<^sup>2) * ((- 3 - (- 5)) / (0 - 1 * 1 - (- 5))))
   \<and> RooGaussBern_region (Fin 3) (Fin 0) (Fin 1) (Fin 1) (Fin 1) = RightPolynomial
   \<and> (5::real) - (0 + 1 * 1) \<noteq> 0
   \<and> RooGaussBern_evaluate (Fin 3) (Fin (- 5)) (Fin 5) (Fin 0) (Fin 1) (Fin 1) (Fin 1)
        (map Fin [2]) (map Fin [3])
      = Fin (exp (- 0.5 * 1\<^sup>2) * (1 - (3 - (0 + 1 * 1)) / (5 - (0 + 1 * 1)))
             + exp (- 0.5 * 1\<^sup>2) * 3 * ((3 - (0 + 1 * 1)) / (5 - (0 + 1 * 1))))"
proof -
  have l: "RooGaussBern_region (Fin (- 3)) (Fin 0) (Fin 1) (Fin 1) (Fin 1) = LeftPolynomial"
    and r: "RooGaussBern_region (Fin 3) (Fin 0) (Fin 1) (Fin 1) (Fin 1) = RightPolynomial"
    by (simp_all add: RooGaussBern_region_def)
  have s: "{0..Suc 0} = {0, Suc 0}"
    by auto
  show ?thesis
    using l r bernstein_tail_sum[of "- 3" 0 1 1 1 "- 5" 5 "[2]" "[3]"]
      bernstein_tail_sum[of 3 0 1 1 1 "- 5" 5 "[2]" "[3]"]
    by (simp add: s)
qed



text \<open>
  C8.  With an empty coefficient list on a side, every \<open>x\<close> that falls in that tail gets
  exactly \<open>coef0 = exp (- 0.5 alpha\<^sup>2)\<close> of that side, whatever \<open>x\<close> and the domain
  edges are, special values included: the only term of the sum is
  \<open>coef0 * pow u 0 * pow (1 - u) 0\<close>, and \<open>pow\<close> with exponent 0 is 1 for every base.
\<close>

theorem empty_coefficient_list:
  "(RooGaussBern_region x x0 sigma alphaL alphaR = LeftPolynomial \<longrightarrow>
      RooGaussBern_evaluate x x_min x_max x0 sigma alphaL alphaR [] bernCoefsR
      = exp_dbl (Fin (- 0.5) * alphaL * alphaL))
   \<and> (RooGaussBern_region x x0 sigma alphaL alphaR = RightPolynomial \<longrightarrow>
      RooGaussBern_evaluate x x_min x_max x0 sigma alphaL alphaR bernCoefsL []
      = exp_dbl (Fin (- 0.5) * alphaR * alphaR))"
  by (simp add: RooGaussBern_evaluate_region left_polynomial_def right_polynomial_def
      bern_loop_left_empty bern_loop_right_empty Let_def)


theorem empty_coefficient_list_witness:
  "RooGaussBern_region (Fin (- 3)) (Fin 0) (Fin 1) (Fin 1) (Fin 1) = LeftPolynomial
   \<and> RooGaussBern_evaluate (Fin (- 3)) (Fin (- 5)) (Fin 5) (Fin 0) (Fin 1) (Fin 1) (Fin 1) [] [Fin 3]
       = exp_dbl (Fin (- 0.5) * Fin 1 * Fin 1)
   \<and> RooGaussBern_region (Fin 3) (Fin 0) (Fin 1) (Fin 1) (Fin 1) = RightPolynomial
   \<and> RooGaussBern_evaluate (Fin 3) (Fin (- 5)) (Fin 5) (Fin 0) (Fin 1) (Fin 1) (Fin 1) [Fin 2] []
       = exp_dbl (Fin (- 0.5) * Fin 1 * Fin 1)"
proof -
  have l: "RooGaussBern_region (Fin (- 3)) (Fin 0) (Fin 1) (Fin 1) (Fin 1) = LeftPolynomial"
    and r: "RooGaussBern_region (Fin 3) (Fin 0) (Fin 1) (Fin 1) (Fin 1) = RightPolynomial"
    by (simp_all add: RooGaussBern_region_def)
  show ?thesis
    using l r
      empty_coefficient_list[of "Fin (- 3)" "Fin 0" "Fin 1" "Fin 1" "Fin 1" "Fin (- 5)" "Fin 5"
        "[Fin 3]" "[Fin 2]"]
      empty_coefficient_list[of "Fin 3" "Fin 0" "Fin 1" "Fin 1" "Fin 1" "Fin (- 5)" "Fin 5"
        "[Fin 3]" "[Fin 2]"]
    by blast
qed

text \<open>
  A Bernstein sum with non-negative coefficients is non-negative on the unit interval,
  and so is the Gaussian.
\<close>

lemma bernstein_term_nonneg:
  fixes t u :: real
  assumes "0 \<le> t" "0 \<le> u" "u \<le> 1"
  shows "0 \<le> t * u ^ i * (1 - u) ^ k"
  using assms by simp

lemma left_sum_nonneg:
  fixes cs :: "real list"
  assumes "\<forall>c\<in>set cs. 0 \<le> c" "0 \<le> c0" "0 \<le> u" "u \<le> 1"
  shows "0 \<le> (\<Sum>i = 0..length cs.
            (if i < length cs then c0 * cs ! i else c0) * u ^ i * (1 - u) ^ (length cs - i))"
proof (rule sum_nonneg)
  fix i
  have "0 \<le> (if i < length cs then c0 * cs ! i else c0)"
    using assms(1,2) by simp
  then show "0 \<le> (if i < length cs then c0 * cs ! i else c0) * u ^ i * (1 - u) ^ (length cs - i)"
    using assms(3,4) by (rule bernstein_term_nonneg)
qed

lemma right_sum_nonneg:
  fixes cs :: "real list"
  assumes "\<forall>c\<in>set cs. 0 \<le> c" "0 \<le> c0" "0 \<le> u" "u \<le> 1"
  shows "0 \<le> (\<Sum>i = 0..length cs.
            (if 0 < i then c0 * cs ! (i - 1) else c0) * u ^ i * (1 - u) ^ (length cs - i))"
proof (rule sum_nonneg)
  fix i
  assume "i \<in> {0..length cs}"
  then have "0 < i \<Longrightarrow> cs ! (i - 1) \<in> set cs"
    by simp
  then have "0 \<le> (if 0 < i then c0 * cs ! (i - 1) else c0)"
    using assms(1,2) by auto
  then show "0 \<le> (if 0 < i then c0 * cs ! (i - 1) else c0) * u ^ i * (1 - u) ^ (length cs - i)"
    using assms(3,4) by (rule bernstein_term_nonneg)
qed

lemma gaussian_nonneg: "z < z' \<Longrightarrow> Fin 0 \<le> gaussian z"
  by (cases z) (auto simp: gaussian_def)

lemma RooGaussBern_region_cases:
  "RooGaussBern_region x x0 sigma alphaL alphaR = LeftPolynomial
     \<longleftrightarrow> (x - x0) / sigma < - alphaL"
  "RooGaussBern_region x x0 sigma alphaL alphaR = Gaussian
     \<longleftrightarrow> \<not> (x - x0) / sigma < - alphaL \<and> (x - x0) / sigma < alphaR"
  "RooGaussBern_region x x0 sigma alphaL alphaR = RightPolynomial
     \<longleftrightarrow> \<not> (x - x0) / sigma < - alphaL \<and> \<not> (x - x0) / sigma < alphaR"
  by (simp_all add: RooGaussBern_region_def Let_def neg_one_times)

section \<open>Continuity at the junctions of the Bernstein-tail shape\<close>

text \<open>A function glued from two continuous ones that agree at the seam is continuous there.\<close>

lemma isCont_if_less:
  fixes f h :: "real \<Rightarrow> real"
  assumes "isCont f a" "isCont h a" "f a = h a"
  shows "isCont (\<lambda>x. if x < a then f x else h x) a"
proof -
  have f: "(f \<longlongrightarrow> h a) (inf (at a) (principal {x. x < a}))"
    using assms(1,3) by (auto simp: isCont_def intro: tendsto_mono[OF inf_le1])
  have h: "(h \<longlongrightarrow> h a) (inf (at a) (principal {x. \<not> x < a}))"
    using assms(2) by (auto simp: isCont_def intro: tendsto_mono[OF inf_le1])
  show ?thesis
    unfolding isCont_def using filterlim_If[OF f h] by simp
qed

lemma isCont_if_less_away:
  fixes f h :: "real \<Rightarrow> real"
  assumes "a \<noteq> c" "isCont f a" "isCont h a"
  shows "isCont (\<lambda>x. if x < c then f x else h x) a"
proof (cases "a < c")
  case True
  have "open {..<c}" "a \<in> {..<c}"
    using True by simp_all
  then have "eventually (\<lambda>x. (if x < c then f x else h x) = f x) (nhds a)"
    unfolding eventually_nhds by (intro exI[of _ "{..<c}"]) simp
  then show ?thesis
    using assms(2) by (simp add: isCont_cong)
next
  case False
  then have "open {c<..}" "a \<in> {c<..}"
    using assms(1) by simp_all
  then have "eventually (\<lambda>x. (if x < c then f x else h x) = h x) (nhds a)"
    unfolding eventually_nhds by (intro exI[of _ "{c<..}"]) auto
  then show ?thesis
    using assms(3) by (simp add: isCont_cong)
qed

lemma left_sum_at_one:
  fixes c0 :: real
  shows "(\<Sum>i = 0..m. (if i < m then c0 * cs ! i else c0) * 1 ^ i * (1 - 1) ^ (m - i)) = c0"
proof -
  have "(\<Sum>i = 0..m. (if i < m then c0 * cs ! i else c0) * 1 ^ i * (1 - 1) ^ (m - i))
        = (\<Sum>i\<in>{0..m}. if i = m then c0 else 0)"
    by (rule sum.cong) auto
  then show ?thesis
    by simp
qed

lemma right_sum_at_zero:
  fixes c0 :: real
  shows "(\<Sum>i = 0..m. (if 0 < i then c0 * cs ! (i - 1) else c0) * 0 ^ i * (1 - 0) ^ (m - i)) = c0"
proof -
  have "(\<Sum>i = 0..m. (if 0 < i then c0 * cs ! (i - 1) else c0) * 0 ^ i * (1 - 0) ^ (m - i))
        = (\<Sum>i\<in>{0..m}. if i = 0 then c0 else 0)"
    by (rule sum.cong) auto
  then show ?thesis
    by simp
qed

lemma left_polynomial_junction:
  assumes "lo < x0 - alphaL * sigma"
  shows "left_polynomial (Fin (x0 - alphaL * sigma)) (Fin lo) (Fin x0) (Fin sigma) (Fin alphaL)
           (map Fin cs) = Fin (exp (- 0.5 * alphaL\<^sup>2))"
proof -
  have n: "x0 - alphaL * sigma - lo \<noteq> 0"
    using assms by simp
  then have u: "(x0 - alphaL * sigma - lo) / (x0 - alphaL * sigma - lo) = 1"
    by simp
  show ?thesis
    unfolding left_polynomial_sum[OF n] u left_sum_at_one ..
qed

lemma right_polynomial_junction:
  assumes "x0 + alphaR * sigma < hi"
  shows "right_polynomial (Fin (x0 + alphaR * sigma)) (Fin hi) (Fin x0) (Fin sigma) (Fin alphaR)
           (map Fin cs) = Fin (exp (- 0.5 * alphaR\<^sup>2))"
proof -
  have n: "hi - (x0 + alphaR * sigma) \<noteq> 0"
    using assms by simp
  have u: "(x0 + alphaR * sigma - (x0 + alphaR * sigma)) / (hi - (x0 + alphaR * sigma)) = 0"
    by simp
  show ?thesis
    unfolding right_polynomial_sum[OF n] u right_sum_at_zero ..
qed

lemma gaussian_left_junction:
  assumes "0 < sigma"
  shows "gaussian ((Fin (x0 - alphaL * sigma) - Fin x0) / Fin sigma) = Fin (exp (- 0.5 * alphaL\<^sup>2))"
  using assms by (simp add: gaussian_def power2_eq_square)

lemma gaussian_right_junction:
  assumes "0 < sigma"
  shows "gaussian ((Fin (x0 + alphaR * sigma) - Fin x0) / Fin sigma) = Fin (exp (- 0.5 * alphaR\<^sup>2))"
  using assms by (simp add: gaussian_def power2_eq_square)

lemma RooGaussBern_evaluate_real:
  assumes "0 < sigma"
  shows "RooGaussBern_evaluate (Fin x) (Fin lo) (Fin hi) (Fin x0) (Fin sigma) (Fin alphaL) (Fin alphaR)
           bernCoefsL bernCoefsR
         = (if x < x0 - alphaL * sigma then
              left_polynomial (Fin x) (Fin lo) (Fin x0) (Fin sigma) (Fin alphaL) bernCoefsL
            else if x < x0 + alphaR * sigma then Fin (exp (- 0.5 * ((x - x0) / sigma)\<^sup>2))
            else right_polynomial (Fin x) (Fin hi) (Fin x0) (Fin sigma) (Fin alphaR) bernCoefsR)"
proof -
  have l: "(x - x0) / sigma < - alphaL \<longleftrightarrow> x < x0 - alphaL * sigma"
    using assms by (simp add: pos_divide_less_eq algebra_simps)
  have r: "(x - x0) / sigma < alphaR \<longleftrightarrow> x < x0 + alphaR * sigma"
    using assms by (simp add: pos_divide_less_eq algebra_simps)
  have z: "(Fin x - Fin x0) / Fin sigma = Fin ((x - x0) / sigma)"
    using assms by simp
  show ?thesis
    unfolding RooGaussBern_evaluate_region RooGaussBern_region_def Let_def z neg_one_times
      uminus_dbl.simps less_dbl.simps l r
    by (simp add: gaussian_def power2_eq_square)
qed

text \<open>
  C6.  With \<open>sigma > 0\<close>, \<open>alphaL > 0\<close>, \<open>alphaR > 0\<close> and both boundaries strictly inside
  the domain, the body of the left tail branch and the body of the Gaussian branch agree
  at the junction \<open>x = x0 - alphaL sigma\<close>, where both are \<open>exp (- 0.5 alphaL\<^sup>2)\<close>
  (the rescaled coordinate is 1 there), and the bodies of the Gaussian and the right tail
  branch agree at \<open>x = x0 + alphaR sigma\<close>, where both are \<open>exp (- 0.5 alphaR\<^sup>2)\<close>
  (rescaled coordinate 0).  So the value \<^verbatim>\<open>evaluate\<close> returns, as a function of \<open>x\<close>, is
  finite everywhere, takes these values at the junctions and is continuous at both.
\<close>

theorem junction_continuity:
  assumes "0 < sigma" "0 < alphaL" "0 < alphaR"
    and "lo < x0 - alphaL * sigma" "x0 + alphaR * sigma < hi"
  shows "left_polynomial (Fin (x0 - alphaL * sigma)) (Fin lo) (Fin x0) (Fin sigma) (Fin alphaL)
           (map Fin csL) = Fin (exp (- 0.5 * alphaL\<^sup>2))
       \<and> gaussian ((Fin (x0 - alphaL * sigma) - Fin x0) / Fin sigma) = Fin (exp (- 0.5 * alphaL\<^sup>2))
       \<and> right_polynomial (Fin (x0 + alphaR * sigma)) (Fin hi) (Fin x0) (Fin sigma) (Fin alphaR)
           (map Fin csR) = Fin (exp (- 0.5 * alphaR\<^sup>2))
       \<and> gaussian ((Fin (x0 + alphaR * sigma) - Fin x0) / Fin sigma) = Fin (exp (- 0.5 * alphaR\<^sup>2))
       \<and> (\<exists>g. (\<forall>x. RooGaussBern_evaluate (Fin x) (Fin lo) (Fin hi) (Fin x0) (Fin sigma)
                      (Fin alphaL) (Fin alphaR) (map Fin csL) (map Fin csR) = Fin (g x))
              \<and> g (x0 - alphaL * sigma) = exp (- 0.5 * alphaL\<^sup>2)
              \<and> g (x0 + alphaR * sigma) = exp (- 0.5 * alphaR\<^sup>2)
              \<and> isCont g (x0 - alphaL * sigma) \<and> isCont g (x0 + alphaR * sigma))"
proof -
  define bL where "bL = x0 - alphaL * sigma"
  define bR where "bR = x0 + alphaR * sigma"
  define eL where "eL = exp (- 0.5 * alphaL\<^sup>2)"
  define eR where "eR = exp (- 0.5 * alphaR\<^sup>2)"
  define PL where "PL = (\<lambda>x. \<Sum>i = 0..length csL.
      (if i < length csL then eL * csL ! i else eL)
      * ((x - lo) / (bL - lo)) ^ i * (1 - (x - lo) / (bL - lo)) ^ (length csL - i))"
  define PR where "PR = (\<lambda>x. \<Sum>i = 0..length csR.
      (if 0 < i then eR * csR ! (i - 1) else eR)
      * ((x - bR) / (hi - bR)) ^ i * (1 - (x - bR) / (hi - bR)) ^ (length csR - i))"
  define G where "G = (\<lambda>x. exp (- 0.5 * ((x - x0) / sigma)\<^sup>2))"
  define H where "H = (\<lambda>x. if x < bR then G x else PR x)"
  define g where "g = (\<lambda>x. if x < bL then PL x else H x)"
  have lt: "bL < bR"
  proof -
    have "0 < alphaL * sigma" "0 < alphaR * sigma"
      using assms(1-3) by simp_all
    then show ?thesis
      unfolding bL_def bR_def by linarith
  qed
  have nL: "x0 - alphaL * sigma - lo \<noteq> 0" and nR: "hi - (x0 + alphaR * sigma) \<noteq> 0"
    using assms(4,5) by simp_all
  have pl: "left_polynomial (Fin x) (Fin lo) (Fin x0) (Fin sigma) (Fin alphaL) (map Fin csL)
            = Fin (PL x)" for x
    unfolding PL_def eL_def bL_def by (rule left_polynomial_sum[OF nL])
  have pr: "right_polynomial (Fin x) (Fin hi) (Fin x0) (Fin sigma) (Fin alphaR) (map Fin csR)
            = Fin (PR x)" for x
    unfolding PR_def eR_def bR_def by (rule right_polynomial_sum[OF nR])
  have j1: "left_polynomial (Fin (x0 - alphaL * sigma)) (Fin lo) (Fin x0) (Fin sigma) (Fin alphaL)
           (map Fin csL) = Fin (exp (- 0.5 * alphaL\<^sup>2))"
    by (rule left_polynomial_junction[OF assms(4)])
  have j2: "gaussian ((Fin (x0 - alphaL * sigma) - Fin x0) / Fin sigma) = Fin (exp (- 0.5 * alphaL\<^sup>2))"
    by (rule gaussian_left_junction[OF assms(1)])
  have j3: "right_polynomial (Fin (x0 + alphaR * sigma)) (Fin hi) (Fin x0) (Fin sigma) (Fin alphaR)
           (map Fin csR) = Fin (exp (- 0.5 * alphaR\<^sup>2))"
    by (rule right_polynomial_junction[OF assms(5)])
  have j4: "gaussian ((Fin (x0 + alphaR * sigma) - Fin x0) / Fin sigma) = Fin (exp (- 0.5 * alphaR\<^sup>2))"
    by (rule gaussian_right_junction[OF assms(1)])
  have PLb: "PL bL = eL"
    using j1 pl[of bL] by (simp add: bL_def eL_def)
  have PRb: "PR bR = eR"
    using j3 pr[of bR] by (simp add: bR_def eR_def)
  have GbL: "G bL = eL"
    using assms(1) by (simp add: G_def bL_def eL_def power2_eq_square)
  have GbR: "G bR = eR"
    using assms(1) by (simp add: G_def bR_def eR_def power2_eq_square)
  have nL': "bL - lo \<noteq> 0" and nR': "hi - bR \<noteq> 0"
    using nL nR by (simp_all add: bL_def bR_def)
  have cPL: "isCont PL a" for a
    unfolding PL_def by (intro continuous_intros nL')
  have cPR: "isCont PR a" for a
    unfolding PR_def by (intro continuous_intros nR')
  have s0: "sigma \<noteq> 0"
    using assms(1) by simp
  have cG: "isCont G a" for a
    unfolding G_def by (intro continuous_intros s0)
  have ev: "RooGaussBern_evaluate (Fin x) (Fin lo) (Fin hi) (Fin x0) (Fin sigma)
              (Fin alphaL) (Fin alphaR) (map Fin csL) (map Fin csR) = Fin (g x)" for x
    unfolding RooGaussBern_evaluate_real[OF assms(1)] pl pr g_def H_def G_def bL_def bR_def
    by simp
  have HbL: "H bL = eL"
    using lt GbL by (simp add: H_def)
  have cH_R: "isCont H bR"
    unfolding H_def by (rule isCont_if_less[OF cG cPR]) (simp add: GbR PRb)
  have cH_L: "isCont H bL"
    unfolding H_def using lt by (intro isCont_if_less_away cG cPR) simp
  have c_L: "isCont g bL"
    unfolding g_def by (rule isCont_if_less[OF cPL cH_L]) (simp add: PLb HbL)
  have c_R: "isCont g bR"
    unfolding g_def using lt by (intro isCont_if_less_away cPL cH_R) simp
  have gL: "g bL = eL" and gR: "g bR = eR"
    using lt by (simp_all add: g_def H_def GbL PRb)
  have "\<exists>g. (\<forall>x. RooGaussBern_evaluate (Fin x) (Fin lo) (Fin hi) (Fin x0) (Fin sigma)
                      (Fin alphaL) (Fin alphaR) (map Fin csL) (map Fin csR) = Fin (g x))
              \<and> g (x0 - alphaL * sigma) = exp (- 0.5 * alphaL\<^sup>2)
              \<and> g (x0 + alphaR * sigma) = exp (- 0.5 * alphaR\<^sup>2)
              \<and> isCont g (x0 - alphaL * sigma) \<and> isCont g (x0 + alphaR * sigma)"
    using ev gL gR c_L c_R unfolding bL_def bR_def eL_def eR_def by blast
  with j1 j2 j3 j4 show ?thesis
    by blast
qed


theorem junction_continuity_witness:
  "(0::real) < 1 \<and> (0::real) < 1.5 \<and> (- 5::real) < 0 - 1.5 * 1 \<and> (0::real) + 1.5 * 1 < 5
   \<and> left_polynomial (Fin (0 - 1.5 * 1)) (Fin (- 5)) (Fin 0) (Fin 1) (Fin 1.5) (map Fin [2])
       = Fin (exp (- 0.5 * 1.5\<^sup>2))
   \<and> gaussian ((Fin (0 - 1.5 * 1) - Fin 0) / Fin 1) = Fin (exp (- 0.5 * 1.5\<^sup>2))
   \<and> right_polynomial (Fin (0 + 1.5 * 1)) (Fin 5) (Fin 0) (Fin 1) (Fin 1.5) (map Fin [3])
       = Fin (exp (- 0.5 * 1.5\<^sup>2))
   \<and> gaussian ((Fin (0 + 1.5 * 1) - Fin 0) / Fin 1) = Fin (exp (- 0.5 * 1.5\<^sup>2))
   \<and> RooGaussBern_evaluate (Fin (0 + 1.5 * 1)) (Fin (- 5)) (Fin 5) (Fin 0) (Fin 1) (Fin 1.5) (Fin 1.5)
         (map Fin [2]) (map Fin [3]) = Fin (exp (- 0.5 * 1.5\<^sup>2))"
proof -
  have h: "(0::real) < 1" "(0::real) < 1.5" "(- 5::real) < 0 - 1.5 * 1" "(0::real) + 1.5 * 1 < 5"
    by simp_all
  note t = junction_continuity[OF h(1) h(2) h(2) h(3) h(4), of "[2]" "[3]"]
  from t obtain g where
    "\<forall>x. RooGaussBern_evaluate (Fin x) (Fin (- 5)) (Fin 5) (Fin 0) (Fin 1) (Fin 1.5) (Fin 1.5)
           (map Fin [2]) (map Fin [3]) = Fin (g x)"
    "g (0 + 1.5 * 1) = exp (- 0.5 * 1.5\<^sup>2)"
    by blast
  then have "RooGaussBern_evaluate (Fin (0 + 1.5 * 1)) (Fin (- 5)) (Fin 5) (Fin 0) (Fin 1) (Fin 1.5)
      (Fin 1.5) (map Fin [2]) (map Fin [3]) = Fin (exp (- 0.5 * 1.5\<^sup>2))"
    by metis
  then show ?thesis
    using h t by blast
qed

section \<open>Rounding to binary64\<close>

lemma round_even_of_int [simp]: "round_even (of_int n) = n"
  by (simp add: round_even_def)

lemma floor_log2:
  fixes k :: int
  assumes "2 powr (of_int k) \<le> x" "x < 2 powr (of_int k + 1)"
  shows "\<lfloor>log 2 x\<rfloor> = k"
proof -
  have "(0::real) < 2 powr (of_int k)"
    by simp
  then have pos: "0 < x"
    using assms(1) by linarith
  have "of_int k \<le> log 2 x"
    using assms(1) pos by (simp add: le_log_iff)
  moreover have "log 2 x < of_int k + 1"
    using assms(2) pos by (simp add: log_less_iff)
  ultimately show ?thesis
    by (simp add: floor_unique)
qed


lemma floor_log2_bounds:
  assumes "0 < x"
  shows "2 powr (of_int \<lfloor>log 2 x\<rfloor>) \<le> x" "x < 2 powr (of_int \<lfloor>log 2 x\<rfloor> + 1)"
proof -
  show "2 powr (of_int \<lfloor>log 2 x\<rfloor>) \<le> x"
    using assms le_log_iff[of 2 x "real_of_int \<lfloor>log 2 x\<rfloor>"] by simp
  have "log 2 x < of_int \<lfloor>log 2 x\<rfloor> + 1"
    by linarith
  then show "x < 2 powr (of_int \<lfloor>log 2 x\<rfloor> + 1)"
    using assms log_less_iff[of 2 x "real_of_int \<lfloor>log 2 x\<rfloor> + 1"] by simp
qed

lemma two_powr_int_nonneg:
  fixes d :: int
  assumes "0 \<le> d"
  shows "(2::real) powr (of_int d) = of_int (2 ^ nat d)"
  using assms by (simp add: powr_real_of_int)

text \<open>A number \<open>m * 2 ^ e\<close> with \<open>\<bar>m\<bar> < 2 ^ 53\<close> and \<open>e\<close> in range is a double: rounding keeps it.\<close>

lemma binary64_representable:
  fixes m e :: int
  assumes m: "\<bar>m\<bar> < 2 ^ 53" and e: "- 1074 \<le> e" "e \<le> 971"
  shows "binary64 (of_int m * 2 powr (of_int e)) = Fin (of_int m * 2 powr (of_int e))"
proof (cases "m = 0")
  case True
  then show ?thesis
    by (simp add: binary64_def)
next
  case False
  define x :: real where "x = of_int m * 2 powr (of_int e)"
  define k where "k = \<lfloor>log 2 \<bar>x\<bar>\<rfloor>"
  define q where "q = max k (- 1022) - 52"
  have x0: "x \<noteq> 0" and ax: "\<bar>x\<bar> = of_int \<bar>m\<bar> * 2 powr (of_int e)"
    using False by (simp_all add: x_def abs_mult)
  have axpos: "0 < \<bar>x\<bar>"
    using x0 by simp
  have "of_int \<bar>m\<bar> < (2::real) ^ 53"
    using m by (metis of_int_less_iff of_int_numeral of_int_power)
  then have up: "\<bar>x\<bar> < 2 ^ 53 * 2 powr (of_int e)"
    unfolding ax by simp
  have "2 powr (of_int k) \<le> \<bar>x\<bar>"
    unfolding k_def by (rule floor_log2_bounds(1)[OF axpos])
  then have "(2::real) powr (of_int k) < 2 ^ 53 * 2 powr (of_int e)"
    using up by linarith
  also have "(2::real) ^ 53 = 2 powr 53"
    by (simp add: powr_realpow[symmetric])
  finally have "(2::real) powr (of_int k) < 2 powr (53 + of_int e)"
    by (simp add: powr_add)
  then have "of_int k < (53::real) + of_int e"
    by simp
  then have "k < 53 + e"
    by linarith
  then have qe: "q \<le> e"
    using e(1) by (simp add: q_def)
  define n where "n = m * 2 ^ nat (e - q)"
  have "2 powr (of_int e) / 2 powr (of_int q) = (2::real) powr (of_int (e - q))"
    by (simp add: powr_diff)
  also have "\<dots> = of_int (2 ^ nat (e - q))"
    using qe by (intro two_powr_int_nonneg) simp
  finally have d: "2 powr (of_int e) / 2 powr (of_int q) = (of_int (2 ^ nat (e - q)) :: real)" .
  have "x / 2 powr (of_int q) = of_int m * (2 powr (of_int e) / 2 powr (of_int q))"
    by (simp add: x_def)
  also have "\<dots> = of_int n"
    unfolding d n_def by simp
  finally have "x / 2 powr (of_int q) = of_int n" .
  then have r: "of_int (round_even (x / 2 powr (of_int q))) * 2 powr (of_int q) = x"
    by (metis round_even_of_int nonzero_eq_divide_eq powr_non_neg powr_zero_eq_one
        less_numeral_extra(3) zero_less_numeral powr_gt_zero less_irrefl)
  have "of_int e \<le> (971::real)"
    using e(2) by linarith
  then have "2 powr (of_int e) \<le> (2::real) powr 971"
    by (intro powr_mono) simp_all
  then have "(2::real) ^ 53 * 2 powr (of_int e) \<le> 2 ^ 53 * 2 powr 971"
    by (intro mult_left_mono) simp_all
  also have "(2::real) powr 971 = 2 ^ 971"
    using powr_realpow[of "2::real" 971] by simp
  also have "(2::real) ^ 53 * 2 ^ 971 = 2 ^ 1024"
    by (simp only: power_add[symmetric]) simp
  finally have "\<bar>x\<bar> < 2 ^ 1024"
    using up by linarith
  then have small: "\<not> 2 ^ 1024 \<le> \<bar>x\<bar>"
    by linarith
  show ?thesis
    using x0 r small
    unfolding binary64_def Let_def x_def[symmetric] k_def[symmetric] q_def[symmetric]
    by simp
qed

lemma round_even_ge_floor: "\<lfloor>t\<rfloor> \<le> round_even t"
  by (simp add: round_even_def Let_def)

lemma round_even_le: "of_int (round_even t) \<le> t + 1"
  unfolding round_even_def Let_def by (simp; linarith)

lemma powr_shift: "(2::real) powr a * 2 powr (b - a) = 2 powr b"
  by (simp add: powr_add[symmetric])

lemma round_even_small:
  assumes "0 \<le> t" "t \<le> 1 / 4"
  shows "round_even t = 0"
proof -
  have "\<lfloor>t\<rfloor> = 0"
    using assms by (intro floor_unique) simp_all
  then show ?thesis
    using assms by (simp add: round_even_def Let_def)
qed

lemma binary64_overflow:
  assumes "2 ^ 1024 \<le> x"
  shows "binary64 x = PInf"
proof -
  define k where "k = \<lfloor>log 2 \<bar>x\<bar>\<rfloor>"
  define q where "q = max k (- 1022) - 52"
  have xpos: "0 < x"
    using assms by (smt (verit) zero_less_power)
  have "(2::real) powr 1024 = 2 ^ 1024"
    using powr_realpow[of "2::real" 1024] by simp
  then have "(1024::real) \<le> log 2 x"
    using assms xpos le_log_iff[of 2 x 1024] by simp
  then have "1024 \<le> k"
    using xpos by (simp add: k_def le_floor_iff)
  then have q: "q = k - 52"
    by (simp add: q_def)
  have kx: "2 powr (of_int k) \<le> x"
    using floor_log2_bounds(1)[of "\<bar>x\<bar>"] xpos by (simp add: k_def)
  have "(2::real) powr 52 \<le> x / 2 powr (of_int q)"
  proof -
    have "(2::real) powr 52 * 2 powr (of_int q) = 2 powr (of_int k)"
      using powr_shift[of 52 "of_int k"] by (simp add: q)
    then show ?thesis
      using kx by (simp add: pos_le_divide_eq)
  qed
  moreover have "(2::real) powr 52 = of_int (2 ^ 52)"
    using powr_realpow[of "2::real" 52] by simp
  ultimately have "(2 ^ 52 :: int) \<le> \<lfloor>x / 2 powr (of_int q)\<rfloor>"
    by (simp add: le_floor_iff)
  then have "(2 ^ 52 :: int) \<le> round_even (x / 2 powr (of_int q))"
    using round_even_ge_floor[of "x / 2 powr (of_int q)"] by linarith
  then have "(2::real) ^ 52 \<le> of_int (round_even (x / 2 powr (of_int q)))"
    by (metis of_int_le_iff of_int_numeral of_int_power)
  then have "(2::real) ^ 52 * 2 powr (of_int q)
             \<le> of_int (round_even (x / 2 powr (of_int q))) * 2 powr (of_int q)"
    by (intro mult_right_mono) simp_all
  moreover have "(2::real) ^ 52 * 2 powr (of_int q) = 2 powr (of_int k)"
    using powr_realpow[of "2::real" 52] powr_shift[of 52 "of_int k"] by (simp add: q)
  moreover have "(2::real) ^ 1024 \<le> 2 powr (of_int k)"
  proof -
    have "(2::real) powr 1024 \<le> 2 powr (of_int k)"
      using \<open>1024 \<le> k\<close> by (intro powr_mono) simp_all
    then show ?thesis
      using powr_realpow[of "2::real" 1024] by simp
  qed
  ultimately have big: "2 ^ 1024 \<le> \<bar>real_of_int (round_even (x / 2 powr (of_int q))) * 2 powr (of_int q)\<bar>"
    by linarith
  have "x \<noteq> 0"
    using xpos by simp
  then show ?thesis
    using big xpos
    unfolding binary64_def Let_def k_def[symmetric] q_def[symmetric]
    by (simp only: if_False if_True)
qed

lemma binary64_underflow:
  assumes "0 < x" "x \<le> 2 powr (- 1076)"
  shows "binary64 x = Fin 0"
proof -
  define k where "k = \<lfloor>log 2 \<bar>x\<bar>\<rfloor>"
  define q where "q = max k (- 1022) - 52"
  have "log 2 x \<le> - 1076"
    using assms log_le_iff[of 2 x "- 1076"] by simp
  then have "k \<le> - 1076"
    using assms(1) by (simp add: k_def floor_le_iff)
  then have q: "q = - 1074"
    by (simp add: q_def)
  have "x / 2 powr (- 1074) \<le> 2 powr (- 1076) / 2 powr (- 1074)"
    using assms(2) by (simp add: divide_right_mono)
  also have "\<dots> = (2::real) powr (- 2)"
    by (simp add: powr_diff[symmetric])
  also have "\<dots> = 1 / 4"
    by (simp add: powr_minus powr_numeral inverse_eq_divide)
  finally have t: "x / 2 powr (- 1074) \<le> 1 / 4" .
  have tpos: "0 \<le> x / 2 powr (- 1074)"
    using assms(1) by simp
  have "round_even (x / 2 powr (- 1074)) = 0"
    by (rule round_even_small[OF tpos t])
  then show ?thesis
    using assms(1)
    unfolding binary64_def Let_def k_def[symmetric] q_def[symmetric] q
    by simp
qed

text \<open>A positive number of the normal range rounds to a positive number.\<close>

lemma binary64_normal_pos:
  assumes "2 powr (- 1022) \<le> x" "x < 2 powr 1023"
  shows "\<exists>v. binary64 x = Fin v \<and> 0 < v"
proof -
  define k where "k = \<lfloor>log 2 \<bar>x\<bar>\<rfloor>"
  define q where "q = max k (- 1022) - 52"
  define y :: real where "y = of_int (round_even (x / 2 powr (of_int q))) * 2 powr (of_int q)"
  have xpos: "0 < x"
    using assms(1) by (smt (verit) powr_gt_zero)
  have "(- 1022::real) \<le> log 2 x"
    using assms(1) xpos le_log_iff[of 2 x "- 1022"] by simp
  then have k1: "- 1022 \<le> k"
    using xpos by (simp add: k_def le_floor_iff)
  have "log 2 x < 1023"
    using assms(2) xpos log_less_iff[of 2 x 1023] by simp
  then have k2: "k < 1023"
    using xpos by (simp add: k_def floor_less_iff)
  have q: "q = k - 52"
    using k1 by (simp add: q_def)
  have kx: "2 powr (of_int k) \<le> x"
    using floor_log2_bounds(1)[of "\<bar>x\<bar>"] xpos by (simp add: k_def)
  have t52: "(2::real) powr 52 \<le> x / 2 powr (of_int q)"
  proof -
    have "(2::real) powr 52 * 2 powr (of_int q) = 2 powr (of_int k)"
      using powr_shift[of 52 "of_int k"] by (simp add: q)
    then show ?thesis
      using kx by (simp add: pos_le_divide_eq)
  qed
  have "(1::real) \<le> 2 powr 52"
    by simp
  then have "(1::real) \<le> x / 2 powr (of_int q)"
    using t52 by linarith
  then have "1 \<le> \<lfloor>x / 2 powr (of_int q)\<rfloor>"
    by (simp add: le_floor_iff)
  then have "1 \<le> round_even (x / 2 powr (of_int q))"
    using round_even_ge_floor[of "x / 2 powr (of_int q)"] by linarith
  then have "(0::real) < of_int (round_even (x / 2 powr (of_int q)))"
    by simp
  then have ypos: "0 < y"
    unfolding y_def by simp
  have "y \<le> (x / 2 powr (of_int q) + 1) * 2 powr (of_int q)"
    unfolding y_def by (intro mult_right_mono round_even_le) simp
  also have "\<dots> = x + 2 powr (of_int q)"
    by (simp add: algebra_simps)
  also have "\<dots> < 2 powr 1023 + 2 powr 1023"
  proof -
    have "of_int q \<le> (1023::real)"
      using k2 q by simp
    then have "2 powr (of_int q) \<le> (2::real) powr 1023"
      by (intro powr_mono) simp_all
    then show ?thesis
      using assms(2) by linarith
  qed
  also have "\<dots> = (2::real) ^ 1024"
    using powr_realpow[of "2::real" 1023] by simp
  finally have "\<not> 2 ^ 1024 \<le> \<bar>y\<bar>"
    using ypos by simp
  then have "binary64 x = Fin y"
    using xpos
    unfolding binary64_def Let_def k_def[symmetric] q_def[symmetric] y_def[symmetric]
    by simp
  then show ?thesis
    using ypos by blast
qed

lemma binary64_int:
  "\<bar>n\<bar> < 2 ^ 53 \<Longrightarrow> binary64 (of_int n) = Fin (of_int n)"
  using binary64_representable[of n 0] by simp

lemma binary64_half_int:
  "\<bar>n\<bar> < 2 ^ 53 \<Longrightarrow> binary64 (of_int n / 2) = Fin (of_int n / 2)"
  using binary64_representable[of n "- 1"] by (simp add: powr_minus_divide)

lemma binary64_small_values:
  "binary64 1 = Fin 1" "binary64 (- 1) = Fin (- 1)" "binary64 2 = Fin 2"
  "binary64 199 = Fin 199" "binary64 200 = Fin 200" "binary64 (- 200) = Fin (- 200)"
  "binary64 (- (1 / 2)) = Fin (- (1 / 2))" "binary64 (1 / 2) = Fin (1 / 2)"
  "binary64 (- (3 / 2)) = Fin (- (3 / 2))" "binary64 (5 / 2) = Fin (5 / 2)"
  using binary64_int[of 1] binary64_int[of "- 1"] binary64_int[of 2] binary64_int[of 199]
    binary64_int[of 200] binary64_int[of "- 200"] binary64_half_int[of "- 1"]
    binary64_half_int[of 1] binary64_half_int[of "- 3"] binary64_half_int[of 5]
  by simp_all

lemma binary64_zero [simp]: "binary64 0 = Fin 0"
  by (simp add: binary64_def)

lemma pow_200_overflow: "fl_pow (Fin 200) (Fin 200) = PInf"
proof -
  have "(2::real) powr 1024 \<le> 2 powr 1400"
    by (intro powr_mono) simp_all
  also have "(2::real) powr 1400 = (2 powr 7) powr 200"
    by (simp only: powr_powr) simp
  also have "(2::real) powr 7 = 128"
    using powr_realpow[of "2::real" 7] by simp
  also have "(128::real) powr 200 \<le> 200 powr 200"
    by (intro powr_mono2) simp_all
  finally have "(2::real) powr 1024 \<le> 200 powr 200" .
  moreover have "(2::real) powr 1024 = 2 ^ 1024"
    using powr_realpow[of "2::real" 1024] by simp
  ultimately have "(2::real) ^ 1024 \<le> 200 powr 200"
    by simp
  then have "binary64 (200 powr 200) = PInf"
    by (rule binary64_overflow)
  then show ?thesis
    by (simp add: fl_pow_def round_dbl_def)
qed

lemma pow_200_underflow: "fl_pow (Fin 200) (Fin (- 200)) = Fin 0"
proof -
  have "(200::real) powr (- 200) \<le> 128 powr (- 200)"
    by (intro powr_mono2') simp_all
  also have "(128::real) = 2 powr 7"
    using powr_realpow[of "2::real" 7] by simp
  also have "((2::real) powr 7) powr (- 200) = 2 powr (- 1400)"
    by (simp only: powr_powr) simp
  also have "(2::real) powr (- 1400) \<le> 2 powr (- 1076)"
    by (intro powr_mono) simp_all
  finally have "(200::real) powr (- 200) \<le> 2 powr (- 1076)" .
  moreover have "(0::real) < 200 powr (- 200)"
    by simp
  ultimately have "binary64 (200 powr (- 200)) = Fin 0"
    by (intro binary64_underflow)
  then show ?thesis
    by (simp add: fl_pow_def round_dbl_def)
qed

lemma exp_half_bounds: "1 / 2 \<le> exp (- (1 / 2) :: real)" "exp (- (1 / 2) :: real) < 1"
proof -
  have "exp (1 / 2 :: real) * exp (1 / 2) = exp 1"
    by (simp add: exp_add[symmetric])
  moreover have "exp (1::real) \<le> 3"
    by (rule exp_le)
  moreover have "1 \<le> exp (1 / 2 :: real)"
    by simp
  ultimately have "exp (1 / 2 :: real) \<le> 3"
    by (smt (verit) mult_left_mono mult.commute mult_cancel_left2)
  then have "exp (1 / 2 :: real) \<le> 2 * 2" by simp
  have "exp (1 / 2 :: real) \<le> 2"
  proof (rule ccontr)
    assume "\<not> exp (1 / 2 :: real) \<le> 2"
    then have "2 < exp (1 / 2 :: real)" by simp
    then have "2 * 2 < exp (1 / 2 :: real) * exp (1 / 2)"
      by (intro mult_strict_mono) simp_all
    then show False
      using \<open>exp (1 / 2 :: real) * exp (1 / 2) = exp 1\<close> \<open>exp (1::real) \<le> 3\<close> by simp
  qed
  then have "inverse 2 \<le> inverse (exp (1 / 2 :: real))"
    by (intro le_imp_inverse_le) simp_all
  then show "1 / 2 \<le> exp (- (1 / 2) :: real)"
    by (simp add: exp_minus)
  show "exp (- (1 / 2) :: real) < 1"
    by simp
qed

lemma exp_half_rounded: "\<exists>v. fl_exp (Fin (- (1 / 2))) = Fin v \<and> 0 < v"
proof -
  have "(2::real) powr (- 1022) \<le> 2 powr (- 1)"
    by (intro powr_mono) simp_all
  also have "(2::real) powr (- 1) = 1 / 2"
    by (simp add: powr_minus_divide)
  finally have lo: "2 powr (- 1022) \<le> exp (- (1 / 2) :: real)"
    using exp_half_bounds(1) by linarith
  have "(1::real) \<le> 2 powr 1023"
    by (rule ge_one_powr_ge_zero) simp_all
  then have hi: "exp (- (1 / 2) :: real) < 2 powr 1023"
    using exp_half_bounds(2) by linarith
  show ?thesis
    using binary64_normal_pos[OF lo hi] by (simp add: fl_exp_def round_dbl_def)
qed

section \<open>The boundary of the power-law tails\<close>

lemma fl_arith_200:
  "fl_div (Fin 200) (Fin 1) = Fin 200"
  "fl_sub (Fin 200) (Fin 1) = Fin 199"
  "fl_add (Fin 199) (Fin 1) = Fin 200"
  "fl_sub (Fin 199) (Fin (- 1)) = Fin 200"
  "fl_mul (Fin (- 1)) (Fin 200) = Fin (- 200)"
  "fl_mul (Fin (- 1)) (Fin 1) = Fin (- 1)"
  "fl_mul (Fin (- (1 / 2))) (Fin 1) = Fin (- (1 / 2))"
  "fl_mul (Fin (- (1 / 2))) (Fin (- 1)) = Fin (1 / 2)"
  "fl_mul (Fin (1 / 2)) (Fin (- 1)) = Fin (- (1 / 2))"
  "fl_sub (Fin 1) (Fin 1) = Fin 0"
  "fl_sub (Fin 1) (Fin 0) = Fin 1"
  "fl_sub (Fin (- 1)) (Fin 0) = Fin (- 1)"
  "fl_div (Fin 1) (Fin 1) = Fin 1"
  "fl_div (Fin (- 1)) (Fin 1) = Fin (- 1)"
  by (simp_all add: fl_div_def fl_sub_def fl_add_def fl_mul_def round_dbl_def
      binary64_small_values)

lemma fl_NaN:
  "fl_mul PInf (Fin 0) = NaN" "fl_mul a NaN = NaN" "fl_add NaN b = NaN"
  by (simp_all add: fl_mul_def fl_add_def round_dbl_def)

lemma fl_mul_PInf_pos: "0 < v \<Longrightarrow> fl_mul PInf (Fin v) = PInf"
  by (simp add: fl_mul_def round_dbl_def)

lemma right_power_law_binary64_overflow:
  "right_power_law_binary64 (Fin 1) (Fin 1) (Fin 200) (Fin 200) (Fin 1) = NaN"
proof -
  obtain v where v: "fl_exp (Fin (- (1 / 2))) = Fin v" "0 < v"
    using exp_half_rounded by blast
  show ?thesis
    unfolding right_power_law_binary64_def Let_def
    by (simp add: fl_arith_200 pow_200_overflow pow_200_underflow v fl_mul_PInf_pos fl_NaN)
qed

lemma left_power_law_binary64_overflow:
  "left_power_law_binary64 (Fin (- 1)) (Fin 1) (Fin 200) (Fin 200) (Fin 1) = NaN"
proof -
  obtain v where v: "fl_exp (Fin (- (1 / 2))) = Fin v" "0 < v"
    using exp_half_rounded by blast
  show ?thesis
    unfolding left_power_law_binary64_def Let_def
    by (simp add: fl_arith_200 pow_200_overflow pow_200_underflow v fl_mul_PInf_pos fl_NaN)
qed

lemma gaussian_boundary_binary64:
  "fl_exp (fl_mul (fl_mul (Fin (- 0.5)) (Fin 1)) (Fin 1)) \<noteq> NaN"
  "fl_exp (fl_mul (fl_mul (Fin (- 0.5)) (Fin (- 1))) (Fin (- 1))) \<noteq> NaN"
  using exp_half_rounded by (auto simp: fl_arith_200)

lemma RooModDSCB_evaluate_binary64_if:
  "RooModDSCB_evaluate_binary64 x x0 sigmaL sigmaR alphaL nL1 nL2 fL alphaR nR1 nR2 fR =
     (if fl_div (fl_sub x x0) sigmaL < fl_mul (Fin (- 1)) alphaL then
        left_power_law_binary64 (fl_div (fl_sub x x0) sigmaL) alphaL nL1 nL2 fL
      else if fl_div (fl_sub x x0) sigmaL < Fin 0 then
        fl_exp (fl_mul (fl_mul (Fin (- 0.5)) (fl_div (fl_sub x x0) sigmaL))
                  (fl_div (fl_sub x x0) sigmaL))
      else if fl_div (fl_sub x x0) sigmaR < alphaR then
        fl_exp (fl_mul (fl_mul (Fin (- 0.5)) (fl_div (fl_sub x x0) sigmaR))
                  (fl_div (fl_sub x x0) sigmaR))
      else right_power_law_binary64 (fl_div (fl_sub x x0) sigmaR) alphaR nR1 nR2 fR)"
  by (simp add: RooModDSCB_evaluate_binary64_def left_power_law_binary64_def
      right_power_law_binary64_def Let_def)

text \<open>
  C3.  As stated the claim fails for the doubles the program computes.  With \<open>alpha = 1\<close>
  and \<open>n1 = n2 = 200\<close> the power \<open>(n1 / alpha) ^ n1\<close> overflows to infinity, the power
  \<open>(B1 + z) ^ (- n1)\<close> underflows to 0, their product is NaN, and so is the right tail at
  \<open>z = alpha\<close> and the left tail at \<open>z = - alpha\<close>: not the value of the Gaussian there.
\<close>

theorem boundary_match_overflow:
  "right_power_law_binary64 (Fin 1) (Fin 1) (Fin 200) (Fin 200) (Fin 1) = NaN
   \<and> right_power_law_binary64 (Fin 1) (Fin 1) (Fin 200) (Fin 200) (Fin 1)
       \<noteq> fl_exp (fl_mul (fl_mul (Fin (- 0.5)) (Fin 1)) (Fin 1))
   \<and> left_power_law_binary64 (Fin (- 1)) (Fin 1) (Fin 200) (Fin 200) (Fin 1) = NaN
   \<and> left_power_law_binary64 (Fin (- 1)) (Fin 1) (Fin 200) (Fin 200) (Fin 1)
       \<noteq> fl_exp (fl_mul (fl_mul (Fin (- 0.5)) (Fin 1)) (Fin 1))"
  using gaussian_boundary_binary64(1)
  by (simp add: right_power_law_binary64_overflow left_power_law_binary64_overflow)

section \<open>The closed forms of the power-law tails\<close>

lemma power_law_term_real:
  fixes a n :: real
  assumes "0 < a" "0 < n"
  shows "(n / a) powr n * exp (c * a * a) * (n / a) powr (- 1 * n) = exp (c * a * a)"
proof -
  have "(n / a) powr n * (n / a) powr (- n) = 1"
    using assms by (simp flip: powr_add)
  then show ?thesis
    by (simp add: mult.commute mult.left_commute)
qed

lemma left_power_law_real_boundary:
  assumes "0 < a" "0 < n1"
  shows "left_power_law_real (- a) a n1 n2 f = exp (- 0.5 * a * a)"
proof -
  have n2e: "0 < (if n2 < n1 then n1 else n2)"
    using assms by simp
  have b: "n / \<bar>a\<bar> - \<bar>a\<bar> - (- a) = n / \<bar>a\<bar>" for n
    using assms by simp
  have abs: "\<bar>a\<bar> = a"
    using assms by simp
  have blend: "f * e + (1 - f) * e = e" for e :: real
    by (simp add: algebra_simps)
  show ?thesis
    unfolding left_power_law_real_def Let_def b
    unfolding abs power_law_term_real[OF assms] power_law_term_real[OF assms(1) n2e] blend ..
qed

lemma right_power_law_real_boundary:
  assumes "0 < a" "0 < n1"
  shows "right_power_law_real a a n1 n2 f = exp (- 0.5 * a * a)"
proof -
  have n2e: "0 < (if n2 < n1 then n1 else n2)"
    using assms by simp
  have b: "n / \<bar>a\<bar> - \<bar>a\<bar> + a = n / \<bar>a\<bar>" for n
    using assms by simp
  have abs: "\<bar>a\<bar> = a"
    using assms by simp
  have blend: "f * e + (1 - f) * e = e" for e :: real
    by (simp add: algebra_simps)
  show ?thesis
    unfolding right_power_law_real_def Let_def b
    unfolding abs power_law_term_real[OF assms] power_law_term_real[OF assms(1) n2e] blend ..
qed

text \<open>
  Where every power has a positive base, the branch bodies in exact arithmetic return
  these closed forms.
\<close>

lemma left_power_law_exact:
  assumes "0 < alphaL" "0 < nL1" "left_sigma \<le> - alphaL"
  shows "left_power_law (Fin left_sigma) (Fin alphaL) (Fin nL1) (Fin nL2) (Fin fL)
         = Fin (left_power_law_real left_sigma alphaL nL1 nL2 fL)"
proof -
  have p: "0 < n \<Longrightarrow> 0 < n / alphaL - alphaL - left_sigma" for n
  proof -
    assume "0 < n"
    then have "0 < n / alphaL"
      using assms(1) by simp
    then show ?thesis
      using assms(3) by linarith
  qed
  show ?thesis
    using assms(1,2) p[of nL1] p[of nL2] p[OF assms(2)]
    by (simp add: left_power_law_def left_power_law_real_def Let_def)
qed

lemma right_power_law_exact:
  assumes "0 < alphaR" "0 < nR1" "alphaR \<le> right_sigma"
  shows "right_power_law (Fin right_sigma) (Fin alphaR) (Fin nR1) (Fin nR2) (Fin fR)
         = Fin (right_power_law_real right_sigma alphaR nR1 nR2 fR)"
proof -
  have p: "0 < n \<Longrightarrow> 0 < n / alphaR - alphaR + right_sigma" for n
  proof -
    assume "0 < n"
    then have "0 < n / alphaR"
      using assms(1) by simp
    then show ?thesis
      using assms(3) by linarith
  qed
  show ?thesis
    using assms(1,2) p[of nR1] p[of nR2] p[OF assms(2)]
    by (simp add: right_power_law_def right_power_law_real_def Let_def)
qed

text \<open>
  C3, as amended.  As an identity of real numbers: for every \<open>alpha > 0\<close>, every \<open>n1 > 0\<close>,
  every \<open>n2\<close> and every mixing fraction \<open>f\<close>, the closed form of the left tail at
  \<open>z = - alpha\<close> and the closed form of the right tail at \<open>z = alpha\<close> equal
  \<open>exp (- 0.5 alpha\<^sup>2)\<close>.  The doubles the program computes follow the closed forms
  up to rounding, and while the powers stay in the range of the doubles.
\<close>

theorem power_law_boundary_match:
  assumes "0 < alpha" "0 < n1"
  shows "left_power_law_real (- alpha) alpha n1 n2 f = exp (- 0.5 * alpha\<^sup>2)
       \<and> right_power_law_real alpha alpha n1 n2 f = exp (- 0.5 * alpha\<^sup>2)"
  using left_power_law_real_boundary[OF assms, of n2 f]
    right_power_law_real_boundary[OF assms, of n2 f]
  by (simp add: power2_eq_square)

theorem power_law_boundary_match_witness:
  "(0::real) < 1 \<and> (0::real) < 200
   \<and> left_power_law_real (- 1) 1 200 200 1 = exp (- 0.5 * 1\<^sup>2)
   \<and> right_power_law_real 1 1 200 200 1 = exp (- 0.5 * 1\<^sup>2)"
  using power_law_boundary_match[of 1 200 200 1] by simp

section \<open>The left tail of the concrete shape, as x decreases\<close>

text \<open>The double just below \<open>- 3 / 2\<close>, and the tie that rounds it away.\<close>

lemma binary64_below_three_halves:
  "binary64 (- (3 / 2) - 1 / 2 ^ 52) = Fin (- (3 / 2) - 1 / 2 ^ 52)"
proof -
  have e: "real_of_int (- 6755399441055745) * 2 powr (of_int (- 52)) = - (3 / 2) - 1 / 2 ^ 52"
    by (simp add: powr_minus_divide)
  have r: "binary64 (real_of_int (- 6755399441055745) * 2 powr (of_int (- 52)))
           = Fin (real_of_int (- 6755399441055745) * 2 powr (of_int (- 52)))"
    by (rule binary64_representable) simp_all
  show ?thesis
    using r unfolding e .
qed

lemma binary64_tie_five_halves: "binary64 (5 / 2 + 1 / 2 ^ 52) = Fin (5 / 2)"
proof -
  define x :: real where "x = 5 / 2 + 1 / 2 ^ 52"
  have "2 powr (of_int 1) \<le> x" "x < 2 powr (of_int 1 + 1)"
    by (simp_all add: x_def)
  then have k: "\<lfloor>log 2 \<bar>x\<bar>\<rfloor> = 1"
    using floor_log2[of 1 x] by (simp add: x_def)
  have t: "x / 2 powr (- 51) = 5629499534213120 + 1 / 2"
    by (simp add: x_def powr_minus_divide)
  have f: "\<lfloor>x / 2 powr (- 51)\<rfloor> = 5629499534213120"
    unfolding t by (rule floor_unique) simp_all
  have "round_even (x / 2 powr (- 51)) = 5629499534213120"
    unfolding round_even_def Let_def f by (simp add: t)
  moreover have "(5629499534213120::real) * 2 powr (- 51) = 5 / 2"
    by (simp add: powr_minus_divide)
  moreover have "x \<noteq> 0"
    by (simp add: x_def)
  ultimately have "binary64 x = Fin (5 / 2)"
    unfolding binary64_def Let_def k by simp
  then show ?thesis
    by (simp add: x_def)
qed

lemma fl_arith_plateau:
  "fl_sub (Fin (- (3 / 2) - 1 / 2 ^ 52)) (Fin 0) = Fin (- (3 / 2) - 1 / 2 ^ 52)"
  "fl_div (Fin (- (3 / 2) - 1 / 2 ^ 52)) (Fin 1) = Fin (- (3 / 2) - 1 / 2 ^ 52)"
  "fl_sub (Fin (- (3 / 2))) (Fin 0) = Fin (- (3 / 2))"
  "fl_div (Fin (- (3 / 2))) (Fin 1) = Fin (- (3 / 2))"
  "fl_div (Fin 2) (Fin 1) = Fin 2"
  "fl_sub (Fin 2) (Fin 1) = Fin 1"
  "fl_sub (Fin 1) (Fin (- (3 / 2) - 1 / 2 ^ 52)) = Fin (5 / 2)"
  "fl_sub (Fin 1) (Fin (- (3 / 2))) = Fin (5 / 2)"
  using binary64_below_three_halves binary64_tie_five_halves
  by (simp_all add: fl_div_def fl_sub_def round_dbl_def binary64_small_values)

text \<open>
  C7.  As stated the claim fails in its second half.  With \<open>x0 = 0\<close>, widths and boundaries
  1, exponents 2 and fractions 1, the two adjacent doubles \<open>- 3 / 2 - 2 ^ - 52\<close> and
  \<open>- 3 / 2\<close> are both in the left tail, and \<^verbatim>\<open>evaluate\<close> returns the same double at both:
  \<open>BL1 - left_sigma\<close> is \<open>5 / 2 + 2 ^ - 52\<close> at the first, a tie that rounds to \<open>5 / 2\<close>.
  The value does not strictly decrease as \<open>x\<close> decreases.
\<close>

theorem adjacent_doubles_plateau:
  "- (3 / 2) - 1 / 2 ^ 52 < (- (3 / 2) :: real) \<and> - (3 / 2) < (- 1 :: real)
   \<and> binary64 (- (3 / 2) - 1 / 2 ^ 52) = Fin (- (3 / 2) - 1 / 2 ^ 52)
   \<and> binary64 (- (3 / 2)) = Fin (- (3 / 2))
   \<and> RooModDSCB_evaluate_binary64 (Fin (- (3 / 2) - 1 / 2 ^ 52)) (Fin 0) (Fin 1) (Fin 1) (Fin 1)
        (Fin 2) (Fin 2) (Fin 1) (Fin 1) (Fin 2) (Fin 2) (Fin 1)
     = RooModDSCB_evaluate_binary64 (Fin (- (3 / 2))) (Fin 0) (Fin 1) (Fin 1) (Fin 1)
        (Fin 2) (Fin 2) (Fin 1) (Fin 1) (Fin 2) (Fin 2) (Fin 1)
   \<and> \<not> RooModDSCB_evaluate_binary64 (Fin (- (3 / 2) - 1 / 2 ^ 52)) (Fin 0) (Fin 1) (Fin 1) (Fin 1)
        (Fin 2) (Fin 2) (Fin 1) (Fin 1) (Fin 2) (Fin 2) (Fin 1)
     < RooModDSCB_evaluate_binary64 (Fin (- (3 / 2))) (Fin 0) (Fin 1) (Fin 1) (Fin 1)
        (Fin 2) (Fin 2) (Fin 1) (Fin 1) (Fin 2) (Fin 2) (Fin 1)"
proof -
  have a: "RooModDSCB_evaluate_binary64 (Fin (- (3 / 2) - 1 / 2 ^ 52)) (Fin 0) (Fin 1) (Fin 1) (Fin 1)
        (Fin 2) (Fin 2) (Fin 1) (Fin 1) (Fin 2) (Fin 2) (Fin 1)
      = left_power_law_binary64 (Fin (- (3 / 2) - 1 / 2 ^ 52)) (Fin 1) (Fin 2) (Fin 2) (Fin 1)"
    unfolding RooModDSCB_evaluate_binary64_if fl_arith_plateau fl_arith_200 by simp
  have b: "RooModDSCB_evaluate_binary64 (Fin (- (3 / 2))) (Fin 0) (Fin 1) (Fin 1) (Fin 1)
        (Fin 2) (Fin 2) (Fin 1) (Fin 1) (Fin 2) (Fin 2) (Fin 1)
      = left_power_law_binary64 (Fin (- (3 / 2))) (Fin 1) (Fin 2) (Fin 2) (Fin 1)"
    unfolding RooModDSCB_evaluate_binary64_if fl_arith_plateau fl_arith_200 by simp
  have c: "left_power_law_binary64 (Fin (- (3 / 2) - 1 / 2 ^ 52)) (Fin 1) (Fin 2) (Fin 2) (Fin 1)
      = left_power_law_binary64 (Fin (- (3 / 2))) (Fin 1) (Fin 2) (Fin 2) (Fin 1)"
    by (simp only: left_power_law_binary64_def Let_def fabs.simps abs_one less_dbl.simps
        less_irrefl if_False fl_arith_plateau)
  have eq: "RooModDSCB_evaluate_binary64 (Fin (- (3 / 2) - 1 / 2 ^ 52)) (Fin 0) (Fin 1) (Fin 1) (Fin 1)
        (Fin 2) (Fin 2) (Fin 1) (Fin 1) (Fin 2) (Fin 2) (Fin 1)
     = RooModDSCB_evaluate_binary64 (Fin (- (3 / 2))) (Fin 0) (Fin 1) (Fin 1) (Fin 1)
        (Fin 2) (Fin 2) (Fin 1) (Fin 1) (Fin 2) (Fin 2) (Fin 1)"
    unfolding a b by (rule c)
  have ord: "- (3 / 2) - 1 / 2 ^ 52 < (- (3 / 2) :: real)" "- (3 / 2) < (- 1 :: real)"
    by simp_all
  show ?thesis
    unfolding eq
    by (intro conjI ord binary64_below_three_halves binary64_small_values(9) refl
        less_dbl_irrefl)
qed

lemma left_power_law_real_scenario:
  assumes "x < - 1"
  shows "left_power_law_real x 1 2 2 1 = 4 * exp (- 1 / 2) * (1 - x) powr (- 2)"
  using assms by (simp add: left_power_law_real_def Let_def)

lemma deep_left_tail_value2:
  "RooModDSCB_evaluate (Fin (- 5)) (Fin 0) (Fin 1) (Fin 1) (Fin 1) (Fin 2) (Fin 2) (Fin 1)
           (Fin 1) (Fin 2) (Fin 2) (Fin 1) = Fin (exp (- 1 / 2) / 9)"
proof -
  have "(6::real) powr (- 2) = 1 / 36"
    by (simp add: powr_minus powr_numeral inverse_eq_divide)
  then have v: "4 * exp (- 1 / 2) * (1 - (- 5)) powr (- 2) = exp (- 1 / 2) / (9::real)"
    by simp
  show ?thesis
    using deep_left_tail_value[of "- 5"] v by simp
qed

section \<open>Mirror symmetry of the double power-law shape\<close>

text \<open>
  C10.  As stated the claim fails where \<open>d / sigma\<close> is \<open>alpha\<close>: there one point is in the
  right tail and its mirror image in the Gaussian core.  With \<open>x0 = 0\<close>, \<open>sigma = 1\<close>,
  \<open>alpha = 1\<close>, \<open>n1 = n2 = 200\<close>, \<open>f = 1\<close> and \<open>d = 1\<close>, \<^verbatim>\<open>evaluate\<close> returns NaN at
  \<open>x0 + d\<close> (the powers overflow and underflow) and a number at \<open>x0 - d\<close>.
\<close>

theorem mirror_fails_at_boundary:
  "RooModDSCB_evaluate_binary64 (Fin 1) (Fin 0) (Fin 1) (Fin 1) (Fin 1) (Fin 200) (Fin 200) (Fin 1)
      (Fin 1) (Fin 200) (Fin 200) (Fin 1) = NaN
   \<and> RooModDSCB_evaluate_binary64 (Fin (- 1)) (Fin 0) (Fin 1) (Fin 1) (Fin 1) (Fin 200) (Fin 200) (Fin 1)
      (Fin 1) (Fin 200) (Fin 200) (Fin 1) \<noteq> NaN
   \<and> RooModDSCB_evaluate_binary64 (Fin 1) (Fin 0) (Fin 1) (Fin 1) (Fin 1) (Fin 200) (Fin 200) (Fin 1)
      (Fin 1) (Fin 200) (Fin 200) (Fin 1)
     \<noteq> RooModDSCB_evaluate_binary64 (Fin (- 1)) (Fin 0) (Fin 1) (Fin 1) (Fin 1) (Fin 200) (Fin 200) (Fin 1)
      (Fin 1) (Fin 200) (Fin 200) (Fin 1)"
proof -
  have r: "RooModDSCB_evaluate_binary64 (Fin 1) (Fin 0) (Fin 1) (Fin 1) (Fin 1) (Fin 200) (Fin 200)
      (Fin 1) (Fin 1) (Fin 200) (Fin 200) (Fin 1) = NaN"
    by (simp add: RooModDSCB_evaluate_binary64_if fl_arith_200 right_power_law_binary64_overflow)
  have l: "RooModDSCB_evaluate_binary64 (Fin (- 1)) (Fin 0) (Fin 1) (Fin 1) (Fin 1) (Fin 200) (Fin 200)
      (Fin 1) (Fin 1) (Fin 200) (Fin 200) (Fin 1) \<noteq> NaN"
    using gaussian_boundary_binary64(2)
    by (simp add: RooModDSCB_evaluate_binary64_if fl_arith_200)
  show ?thesis
    using r l by simp
qed

lemma round_even_uminus: "round_even (- t) = - round_even t"
proof (cases "t = of_int \<lfloor>t\<rfloor>")
  case True
  then obtain n where "t = of_int n"
    by blast
  then show ?thesis
    by (simp flip: of_int_minus)
next
  case False
  then have f: "\<lfloor>- t\<rfloor> = - \<lfloor>t\<rfloor> - 1"
    by (smt (verit) ceiling_altdef ceiling_def minus_minus of_int_floor_cancel)
  define r where "r = t - of_int \<lfloor>t\<rfloor>"
  have r': "- t - of_int (- \<lfloor>t\<rfloor> - 1) = 1 - r"
    by (simp add: r_def)
  have ev: "even (- \<lfloor>t\<rfloor> - 1) \<longleftrightarrow> odd \<lfloor>t\<rfloor>"
    by simp
  show ?thesis
    unfolding round_even_def Let_def f r' r_def[symmetric] ev
    by (auto simp: not_less)
qed

lemma binary64_uminus: "binary64 (- x) = - binary64 x"
  unfolding binary64_def Let_def
  by (simp add: round_even_uminus minus_divide_left[symmetric] del: minus_divide_left)

lemma round_dbl_uminus: "round_dbl (- v) = - round_dbl v"
  by (cases v) (simp_all add: round_dbl_def binary64_uminus)

lemma times_uminus_right: "a * (- b) = - (a * b)" for a b :: dbl
  by (cases a; cases b) auto

lemma times_uminus_left: "(- a) * b = - (a * b)" for a b :: dbl
  by (cases a; cases b) auto

lemma gaussian_binary64_uminus:
  "fl_exp (fl_mul (fl_mul c (- z)) (- z)) = fl_exp (fl_mul (fl_mul c z) z)"
  by (simp add: fl_mul_def times_uminus_right times_uminus_left round_dbl_uminus)

lemma left_power_law_binary64_mirror:
  "left_power_law_binary64 z alpha n1 n2 f = right_power_law_binary64 (- z) alpha n1 n2 f"
  by (simp add: left_power_law_binary64_def right_power_law_binary64_def fl_sub_def fl_add_def
      minus_dbl_def)

lemma less_uminus_dbl: "- z < - w \<longleftrightarrow> w < z" for z w :: dbl
  by (cases z; cases w) auto

lemma mirror_away_from_boundary_exact:
  fixes z :: dbl
  assumes "0 < a" "z \<noteq> Fin a" "z \<noteq> Fin (- a)"
  shows "(if z < Fin (- a) then left_power_law z (Fin a) n1 n2 f
          else if z < Fin 0 then gaussian z
          else if z < Fin a then gaussian z
          else right_power_law z (Fin a) n1 n2 f)
       = (if - z < Fin (- a) then left_power_law (- z) (Fin a) n1 n2 f
          else if - z < Fin 0 then gaussian (- z)
          else if - z < Fin a then gaussian (- z)
          else right_power_law (- z) (Fin a) n1 n2 f)"
  using assms gaussian_uminus[of z]
  by (cases z) (auto simp: left_power_law_mirror)

lemma mirror_away_from_boundary_binary64:
  fixes z :: dbl
  assumes "0 < a" "z \<noteq> Fin a" "z \<noteq> Fin (- a)"
  shows "(if z < Fin (- a) then left_power_law_binary64 z (Fin a) n1 n2 f
          else if z < Fin 0 then fl_exp (fl_mul (fl_mul (Fin (- 0.5)) z) z)
          else if z < Fin a then fl_exp (fl_mul (fl_mul (Fin (- 0.5)) z) z)
          else right_power_law_binary64 z (Fin a) n1 n2 f)
       = (if - z < Fin (- a) then left_power_law_binary64 (- z) (Fin a) n1 n2 f
          else if - z < Fin 0 then fl_exp (fl_mul (fl_mul (Fin (- 0.5)) (- z)) (- z))
          else if - z < Fin a then fl_exp (fl_mul (fl_mul (Fin (- 0.5)) (- z)) (- z))
          else right_power_law_binary64 (- z) (Fin a) n1 n2 f)"
  using assms gaussian_binary64_uminus[of "Fin (- 0.5)" z]
  by (cases z) (auto simp: left_power_law_binary64_mirror)

text \<open>
  C10, as amended.  With the same width, the same boundary \<open>alpha > 0\<close>, the same exponents
  and the same fraction on both sides (any values, special ones included), \<^verbatim>\<open>evaluate\<close>
  returns the same value at two points whose normalised distances \<open>(x - x0) / sigma\<close> are
  the negatives of each other, as those of \<open>x0 + d\<close> and \<open>x0 - d\<close> are, unless that distance is
  \<open>alpha\<close> or \<open>- alpha\<close>.  This holds in exact arithmetic and, with the distances read as
  the rounded ones, in binary64 arithmetic (there \<open>alpha\<close> is a double).
\<close>

theorem mirror_symmetry:
  assumes "0 < a"
  shows "((x2 - x0) / sigma = - ((x1 - x0) / sigma)
          \<and> (x1 - x0) / sigma \<noteq> Fin a \<and> (x1 - x0) / sigma \<noteq> Fin (- a) \<longrightarrow>
          RooModDSCB_evaluate x1 x0 sigma sigma (Fin a) n1 n2 f (Fin a) n1 n2 f
          = RooModDSCB_evaluate x2 x0 sigma sigma (Fin a) n1 n2 f (Fin a) n1 n2 f)
       \<and> (binary64 a = Fin a
          \<and> fl_div (fl_sub x2 x0) sigma = - fl_div (fl_sub x1 x0) sigma
          \<and> fl_div (fl_sub x1 x0) sigma \<noteq> Fin a \<and> fl_div (fl_sub x1 x0) sigma \<noteq> Fin (- a) \<longrightarrow>
          RooModDSCB_evaluate_binary64 x1 x0 sigma sigma (Fin a) n1 n2 f (Fin a) n1 n2 f
          = RooModDSCB_evaluate_binary64 x2 x0 sigma sigma (Fin a) n1 n2 f (Fin a) n1 n2 f)"
proof (intro conjI impI; (elim conjE)?)
  assume m: "(x2 - x0) / sigma = - ((x1 - x0) / sigma)"
    and n: "(x1 - x0) / sigma \<noteq> Fin a" "(x1 - x0) / sigma \<noteq> Fin (- a)"
  have neg: "Fin (- 1) * Fin a = Fin (- a)"
    by simp
  show "RooModDSCB_evaluate x1 x0 sigma sigma (Fin a) n1 n2 f (Fin a) n1 n2 f
        = RooModDSCB_evaluate x2 x0 sigma sigma (Fin a) n1 n2 f (Fin a) n1 n2 f"
    unfolding RooModDSCB_evaluate_if m neg
    by (rule mirror_away_from_boundary_exact[OF assms n])
next
  assume r: "binary64 a = Fin a"
    and m: "fl_div (fl_sub x2 x0) sigma = - fl_div (fl_sub x1 x0) sigma"
    and n: "fl_div (fl_sub x1 x0) sigma \<noteq> Fin a" "fl_div (fl_sub x1 x0) sigma \<noteq> Fin (- a)"
  have neg: "fl_mul (Fin (- 1)) (Fin a) = Fin (- a)"
    using r by (simp add: fl_mul_def round_dbl_def binary64_uminus)
  show "RooModDSCB_evaluate_binary64 x1 x0 sigma sigma (Fin a) n1 n2 f (Fin a) n1 n2 f
        = RooModDSCB_evaluate_binary64 x2 x0 sigma sigma (Fin a) n1 n2 f (Fin a) n1 n2 f"
    unfolding RooModDSCB_evaluate_binary64_if m neg
    by (rule mirror_away_from_boundary_binary64[OF assms n])
qed

theorem mirror_symmetry_witness:
  "(0::real) < 1
   \<and> (Fin (- 2) - Fin 0) / Fin 1 = - ((Fin 2 - Fin 0) / Fin 1)
   \<and> (Fin 2 - Fin 0) / Fin 1 \<noteq> Fin 1 \<and> (Fin 2 - Fin 0) / Fin 1 \<noteq> Fin (- 1)
   \<and> RooModDSCB_evaluate (Fin 2) (Fin 0) (Fin 1) (Fin 1) (Fin 1) (Fin 2) (Fin 3) (Fin 0.25)
        (Fin 1) (Fin 2) (Fin 3) (Fin 0.25)
     = RooModDSCB_evaluate (Fin (- 2)) (Fin 0) (Fin 1) (Fin 1) (Fin 1) (Fin 2) (Fin 3) (Fin 0.25)
        (Fin 1) (Fin 2) (Fin 3) (Fin 0.25)
   \<and> binary64 1 = Fin 1
   \<and> fl_div (fl_sub (Fin (- 2)) (Fin 0)) (Fin 1) = - fl_div (fl_sub (Fin 2) (Fin 0)) (Fin 1)
   \<and> fl_div (fl_sub (Fin 2) (Fin 0)) (Fin 1) \<noteq> Fin 1
   \<and> fl_div (fl_sub (Fin 2) (Fin 0)) (Fin 1) \<noteq> Fin (- 1)
   \<and> RooModDSCB_evaluate_binary64 (Fin 2) (Fin 0) (Fin 1) (Fin 1) (Fin 1) (Fin 2) (Fin 3) (Fin 0.25)
        (Fin 1) (Fin 2) (Fin 3) (Fin 0.25)
     = RooModDSCB_evaluate_binary64 (Fin (- 2)) (Fin 0) (Fin 1) (Fin 1) (Fin 1) (Fin 2) (Fin 3)
        (Fin 0.25) (Fin 1) (Fin 2) (Fin 3) (Fin 0.25)"
proof -
  have p: "(0::real) < 1"
    by simp
  have e: "(Fin (- 2) - Fin 0) / Fin 1 = - ((Fin 2 - Fin 0) / Fin 1)"
    "(Fin 2 - Fin 0) / Fin 1 \<noteq> Fin 1" "(Fin 2 - Fin 0) / Fin 1 \<noteq> Fin (- 1)"
    by simp_all
  have two: "binary64 2 = Fin 2" "binary64 (- 2) = Fin (- 2)"
    using binary64_int[of 2] binary64_int[of "- 2"] by simp_all
  have q: "fl_div (fl_sub (Fin 2) (Fin 0)) (Fin 1) = Fin 2"
    "fl_div (fl_sub (Fin (- 2)) (Fin 0)) (Fin 1) = Fin (- 2)"
    by (simp_all add: fl_div_def fl_sub_def round_dbl_def two)
  have b: "binary64 1 = Fin 1"
    "fl_div (fl_sub (Fin (- 2)) (Fin 0)) (Fin 1) = - fl_div (fl_sub (Fin 2) (Fin 0)) (Fin 1)"
    "fl_div (fl_sub (Fin 2) (Fin 0)) (Fin 1) \<noteq> Fin 1"
    "fl_div (fl_sub (Fin 2) (Fin 0)) (Fin 1) \<noteq> Fin (- 1)"
    unfolding q by (simp_all add: binary64_small_values)
  show ?thesis
    using p e b
      mirror_symmetry[OF p, of "Fin (- 2)" "Fin 0" "Fin 1" "Fin 2" "Fin 2" "Fin 3" "Fin 0.25"]
    by blast
qed

section \<open>Rounding is monotone\<close>

lemma round_even_le_floor: "round_even t \<le> \<lfloor>t\<rfloor> + 1"
  by (simp add: round_even_def Let_def)

lemma round_even_mono:
  assumes "s \<le> t"
  shows "round_even s \<le> round_even t"
proof (cases "\<lfloor>s\<rfloor> = \<lfloor>t\<rfloor>")
  case True
  then show ?thesis
    using assms by (auto simp: round_even_def Let_def)
next
  case False
  then have "\<lfloor>s\<rfloor> < \<lfloor>t\<rfloor>"
    using floor_mono[OF assms] by linarith
  then have "round_even s \<le> \<lfloor>t\<rfloor>"
    using round_even_le_floor[of s] by linarith
  then show ?thesis
    using round_even_ge_floor[of t] by linarith
qed

lemma round_even_le_int: "t \<le> of_int n \<Longrightarrow> round_even t \<le> n"
  using round_even_mono[of t "of_int n"] by simp

lemma round_even_ge_int: "of_int n \<le> t \<Longrightarrow> n \<le> round_even t"
  using round_even_mono[of "of_int n" t] by simp

text \<open>The rounded significand, scaled back, grows with the number rounded.\<close>

lemma scaled_round_mono:
  fixes x y :: real and qx qy :: int
  assumes "0 < x" "x \<le> y"
    and qx: "qx = max \<lfloor>log 2 x\<rfloor> (- 1022) - 52"
    and qy: "qy = max \<lfloor>log 2 y\<rfloor> (- 1022) - 52"
  shows "real_of_int (round_even (x / 2 powr (of_int qx))) * 2 powr (of_int qx)
         \<le> real_of_int (round_even (y / 2 powr (of_int qy))) * 2 powr (of_int qy)"
proof -
  have ypos: "0 < y"
    using assms(1,2) by linarith
  have "log 2 x \<le> log 2 y"
    using assms(1,2) by simp
  then have "\<lfloor>log 2 x\<rfloor> \<le> \<lfloor>log 2 y\<rfloor>"
    by (rule floor_mono)
  then have qle: "qx \<le> qy"
    by (simp add: qx qy)
  show ?thesis
  proof (cases "qx = qy")
    case True
    have "x / 2 powr (of_int qy) \<le> y / 2 powr (of_int qy)"
      using assms(2) by (simp add: divide_right_mono)
    then have "round_even (x / 2 powr (of_int qy)) \<le> round_even (y / 2 powr (of_int qy))"
      by (rule round_even_mono)
    then have "real_of_int (round_even (x / 2 powr (of_int qy)))
               \<le> real_of_int (round_even (y / 2 powr (of_int qy)))"
      by simp
    then show ?thesis
      unfolding True by (intro mult_right_mono) simp_all
  next
    case False
    then have lt: "qx < qy"
      using qle by linarith
    have "x < 2 powr (of_int \<lfloor>log 2 x\<rfloor> + 1)"
      by (rule floor_log2_bounds(2)[OF assms(1)])
    also have "\<dots> \<le> 2 powr (of_int qx + 53)"
      by (intro powr_mono) (simp_all add: qx)
    finally have "x < 2 powr (of_int qx + 53)" .
    then have "x < 2 powr 53 * 2 powr (of_int qx)"
      by (simp add: powr_add mult.commute)
    then have "x / 2 powr (of_int qx) < 2 powr 53"
      by (simp add: pos_divide_less_eq)
    moreover have "(2::real) powr 53 = of_int (2 ^ 53)"
      using powr_realpow[of "2::real" 53] by simp
    ultimately have "x / 2 powr (of_int qx) \<le> of_int (2 ^ 53)"
      by linarith
    then have "round_even (x / 2 powr (of_int qx)) \<le> 2 ^ 53"
      by (rule round_even_le_int)
    then have "real_of_int (round_even (x / 2 powr (of_int qx))) \<le> of_int (2 ^ 53)"
      by (simp only: of_int_le_iff)
    then have "real_of_int (round_even (x / 2 powr (of_int qx))) * 2 powr (of_int qx)
               \<le> of_int (2 ^ 53) * 2 powr (of_int qx)"
      by (intro mult_right_mono) simp_all
    also have "real_of_int (2 ^ 53) = 2 powr 53"
      using powr_realpow[of "2::real" 53] by simp
    also have "(2::real) powr 53 * 2 powr (of_int qx) = 2 powr (of_int qx + 53)"
      by (simp add: powr_add mult.commute)
    also have "\<dots> \<le> 2 powr (of_int qy + 52)"
      using lt by (intro powr_mono) simp_all
    finally have left: "real_of_int (round_even (x / 2 powr (of_int qx))) * 2 powr (of_int qx)
                        \<le> 2 powr (of_int qy + 52)" .
    have "- 1022 < qy + 52"
      using lt by (simp add: qx)
    then have ky: "qy + 52 = \<lfloor>log 2 y\<rfloor>"
      by (simp add: qy)
    have "2 powr (of_int (qy + 52)) \<le> y"
      unfolding ky by (rule floor_log2_bounds(1)[OF ypos])
    then have "2 powr 52 * 2 powr (of_int qy) \<le> y"
      by (simp add: powr_add mult.commute)
    then have "2 powr 52 \<le> y / 2 powr (of_int qy)"
      by (simp add: pos_le_divide_eq)
    moreover have "(2::real) powr 52 = of_int (2 ^ 52)"
      using powr_realpow[of "2::real" 52] by simp
    ultimately have "of_int (2 ^ 52) \<le> y / 2 powr (of_int qy)"
      by linarith
    then have "2 ^ 52 \<le> round_even (y / 2 powr (of_int qy))"
      by (rule round_even_ge_int)
    then have "real_of_int (2 ^ 52) \<le> real_of_int (round_even (y / 2 powr (of_int qy)))"
      by (simp only: of_int_le_iff)
    then have "real_of_int (2 ^ 52) * 2 powr (of_int qy)
               \<le> real_of_int (round_even (y / 2 powr (of_int qy))) * 2 powr (of_int qy)"
      by (intro mult_right_mono) simp_all
    moreover have "real_of_int (2 ^ 52) * 2 powr (of_int qy) = 2 powr (of_int qy + 52)"
      using powr_realpow[of "2::real" 52] by (simp add: powr_add mult.commute)
    ultimately show ?thesis
      using left by linarith
  qed
qed

lemma binary64_pos:
  fixes x :: real and q :: int
  assumes "0 < x" and q: "q = max \<lfloor>log 2 x\<rfloor> (- 1022) - 52"
  shows "0 \<le> real_of_int (round_even (x / 2 powr (of_int q))) * 2 powr (of_int q)"
    and "binary64 x =
           (if 2 ^ 1024 \<le> real_of_int (round_even (x / 2 powr (of_int q))) * 2 powr (of_int q)
            then PInf
            else Fin (real_of_int (round_even (x / 2 powr (of_int q))) * 2 powr (of_int q)))"
proof -
  have "real_of_int 0 \<le> x / 2 powr (of_int q)"
    using assms(1) by simp
  then have "0 \<le> round_even (x / 2 powr (of_int q))"
    by (rule round_even_ge_int)
  then show nn: "0 \<le> real_of_int (round_even (x / 2 powr (of_int q))) * 2 powr (of_int q)"
    by simp
  have ax: "\<bar>x\<bar> = x" "x \<noteq> 0"
    using assms(1) by simp_all
  show "binary64 x =
           (if 2 ^ 1024 \<le> real_of_int (round_even (x / 2 powr (of_int q))) * 2 powr (of_int q)
            then PInf
            else Fin (real_of_int (round_even (x / 2 powr (of_int q))) * 2 powr (of_int q)))"
    unfolding binary64_def Let_def ax(1) q[symmetric] abs_of_nonneg[OF nn]
    using ax(2) assms(1) by (simp only: if_False if_True)
qed

text \<open>Rounding is monotone.\<close>

lemma binary64_mono_pos:
  assumes "0 < x" "x \<le> y"
  shows "binary64 x \<le> binary64 y"
proof -
  define qx where "qx = max \<lfloor>log 2 x\<rfloor> (- 1022) - 52"
  define qy where "qy = max \<lfloor>log 2 y\<rfloor> (- 1022) - 52"
  define vx where "vx = real_of_int (round_even (x / 2 powr (of_int qx))) * 2 powr (of_int qx)"
  define vy where "vy = real_of_int (round_even (y / 2 powr (of_int qy))) * 2 powr (of_int qy)"
  have ypos: "0 < y"
    using assms by linarith
  have le: "vx \<le> vy"
    unfolding vx_def vy_def by (rule scaled_round_mono[OF assms qx_def qy_def])
  have fx: "binary64 x = (if 2 ^ 1024 \<le> vx then PInf else Fin vx)"
    unfolding vx_def by (rule binary64_pos(2)[OF assms(1) qx_def])
  have fy: "binary64 y = (if 2 ^ 1024 \<le> vy then PInf else Fin vy)"
    unfolding vy_def by (rule binary64_pos(2)[OF ypos qy_def])
  show ?thesis
  proof (cases "2 ^ 1024 \<le> vx")
    case True
    then have "2 ^ 1024 \<le> vy"
      using le by linarith
    then show ?thesis
      unfolding fx fy using True by (simp only: if_True less_eq_dbl.simps)
  next
    case False
    show ?thesis
    proof (cases "2 ^ 1024 \<le> vy")
      case True
      then show ?thesis
        unfolding fx fy using False by (simp only: if_True if_False less_eq_dbl.simps)
    next
      case vyF: False
      then show ?thesis
        unfolding fx fy using False le by (simp only: if_False less_eq_dbl.simps)
    qed
  qed
qed

lemma binary64_cases: "binary64 x \<noteq> NaN"
  unfolding binary64_def Let_def by (simp only: dbl.distinct split: if_split) blast

lemma binary64_nonneg:
  assumes "0 \<le> x"
  shows "Fin 0 \<le> binary64 x"
proof (cases "x = 0")
  case True
  then show ?thesis
    by simp
next
  case False
  define q where "q = max \<lfloor>log 2 x\<rfloor> (- 1022) - 52"
  have xpos: "0 < x"
    using assms False by simp
  define v where "v = real_of_int (round_even (x / 2 powr (of_int q))) * 2 powr (of_int q)"
  have v: "0 \<le> v" and f: "binary64 x = (if 2 ^ 1024 \<le> v then PInf else Fin v)"
    unfolding v_def by (rule binary64_pos[OF xpos q_def])+
  show ?thesis
    unfolding f using v by (cases "2 ^ 1024 \<le> v") (simp_all only: if_True if_False less_eq_dbl.simps)
qed

lemma uminus_le_dbl: "- a \<le> - b \<longleftrightarrow> b \<le> a" for a b :: dbl
  by (cases a; cases b) simp_all

lemma binary64_nonpos:
  assumes "x \<le> 0"
  shows "binary64 x \<le> Fin 0"
proof -
  have "Fin 0 \<le> binary64 (- x)"
    using assms by (intro binary64_nonneg) simp
  then have "- Fin 0 \<le> - binary64 x"
    by (simp add: binary64_uminus)
  then show ?thesis
    by (simp only: uminus_le_dbl)
qed

lemma le_dbl_through_zero: "a \<le> Fin 0 \<Longrightarrow> Fin 0 \<le> b \<Longrightarrow> a \<le> b" for a b :: dbl
  by (cases a; cases b) simp_all

lemma binary64_mono:
  assumes "x \<le> y"
  shows "binary64 x \<le> binary64 y"
proof -
  consider "0 < x" | "x \<le> 0" "0 \<le> y" | "y < 0"
    using assms by linarith
  then show ?thesis
  proof cases
    case 1
    then show ?thesis
      using assms by (rule binary64_mono_pos)
  next
    case 2
    show ?thesis
      by (rule le_dbl_through_zero[OF binary64_nonpos[OF 2(1)] binary64_nonneg[OF 2(2)]])
  next
    case 3
    then have "binary64 (- y) \<le> binary64 (- x)"
      using assms by (intro binary64_mono_pos) simp_all
    then show ?thesis
      by (simp only: binary64_uminus uminus_le_dbl)
  qed
qed

text \<open>A number between two doubles rounds to a number between them.\<close>

lemma binary64_between:
  assumes "l \<le> x" "x \<le> u" "binary64 l = Fin l" "binary64 u = Fin u"
  shows "\<exists>v. binary64 x = Fin v \<and> l \<le> v \<and> v \<le> u"
proof -
  have "Fin l \<le> binary64 x" "binary64 x \<le> Fin u"
    using binary64_mono[OF assms(1)] binary64_mono[OF assms(2)] assms(3,4) by simp_all
  then show ?thesis
    by (cases "binary64 x") simp_all
qed

lemma binary64_unit:
  assumes "0 \<le> x" "x \<le> 1"
  shows "\<exists>v. binary64 x = Fin v \<and> 0 \<le> v \<and> v \<le> 1"
  using binary64_between[OF assms] binary64_small_values(1) by simp

section \<open>Non-negativity of the Bernstein-tail shape\<close>

text \<open>The argument of the exponential is never positive, so its value is in \<open>[0, 1]\<close>.\<close>

lemma half_square_nonpos:
  assumes "a \<noteq> NaN"
  shows "fl_mul (fl_mul (Fin (- 0.5)) a) a \<le> Fin 0"
proof (cases a)
  case (Fin r)
  define c where "c = binary64 (- 0.5 * r)"
  have c: "fl_mul (Fin (- 0.5)) a = c"
    by (simp add: Fin fl_mul_def round_dbl_def c_def)
  show ?thesis
  proof (cases "0 \<le> r")
    case True
    then have le: "c \<le> Fin 0"
      unfolding c_def by (intro binary64_nonpos) simp
    show ?thesis
    proof (cases c)
      case (Fin s)
      then have "s * r \<le> 0"
        using le True by (simp add: mult_nonpos_nonneg)
      then have "binary64 (s * r) \<le> Fin 0"
        by (rule binary64_nonpos)
      then show ?thesis
        unfolding c by (simp add: Fin \<open>a = Fin r\<close> fl_mul_def round_dbl_def)
    next
      case NInf
      have "r \<noteq> 0"
        using NInf by (auto simp: c_def)
      then show ?thesis
        unfolding c using True by (simp add: NInf \<open>a = Fin r\<close> fl_mul_def round_dbl_def)
    qed (use le in simp_all)
  next
    case False
    then have ge: "Fin 0 \<le> c"
      unfolding c_def by (intro binary64_nonneg) simp
    show ?thesis
    proof (cases c)
      case (Fin s)
      then have "s * r \<le> 0"
        using ge False by (simp add: mult_nonneg_nonpos)
      then have "binary64 (s * r) \<le> Fin 0"
        by (rule binary64_nonpos)
      then show ?thesis
        unfolding c by (simp add: Fin \<open>a = Fin r\<close> fl_mul_def round_dbl_def)
    next
      case PInf
      then show ?thesis
        unfolding c using False by (simp add: \<open>a = Fin r\<close> fl_mul_def round_dbl_def)
    qed (use ge in simp_all)
  qed
qed (use assms in \<open>simp_all add: fl_mul_def round_dbl_def\<close>)

lemma fl_exp_unit:
  assumes "b \<le> Fin 0"
  shows "\<exists>k. fl_exp b = Fin k \<and> 0 \<le> k \<and> k \<le> 1"
proof (cases b)
  case (Fin t)
  then have "0 \<le> exp t" "exp t \<le> 1"
    using assms by simp_all
  then show ?thesis
    unfolding Fin fl_exp_def round_dbl_def exp_dbl.simps dbl.case by (rule binary64_unit)
next
  case NInf
  then show ?thesis
    by (simp add: fl_exp_def round_dbl_def)
qed (use assms in simp_all)

lemma gaussian_binary64_unit:
  assumes "a \<noteq> NaN"
  shows "\<exists>k. fl_exp (fl_mul (fl_mul (Fin (- 0.5)) a) a) = Fin k \<and> 0 \<le> k \<and> k \<le> 1"
  by (rule fl_exp_unit[OF half_square_nonpos[OF assms]])

text \<open>Every term of the loops is a non-negative number.\<close>

lemma fl_pow_unit:
  assumes "0 \<le> t" "t \<le> 1"
  shows "\<exists>p. fl_pow (Fin t) (Fin (real i)) = Fin p \<and> 0 \<le> p \<and> p \<le> 1"
proof -
  have "0 \<le> t ^ i" "t ^ i \<le> 1"
    using assms by (simp_all add: power_le_one)
  then show ?thesis
    unfolding fl_pow_def TMath_Power_nat round_dbl_def dbl.case by (rule binary64_unit)
qed

lemma one_minus_unit:
  assumes "0 \<le> t" "t \<le> 1"
  shows "\<exists>w. fl_sub (Fin 1) (Fin t) = Fin w \<and> 0 \<le> w \<and> w \<le> 1"
proof -
  have "0 \<le> 1 - t" "1 - t \<le> 1"
    using assms by simp_all
  then show ?thesis
    unfolding fl_sub_def minus_Fin round_dbl_def dbl.case by (rule binary64_unit)
qed

lemma fl_mul_unit:
  assumes "0 \<le> k" "k \<le> K" "binary64 K = Fin K" "0 \<le> p" "p \<le> 1"
  shows "\<exists>m. fl_mul (Fin k) (Fin p) = Fin m \<and> 0 \<le> m \<and> m \<le> K"
proof -
  have "k * p \<le> K * 1"
    using assms by (intro mult_mono) simp_all
  then have "0 \<le> k * p" "k * p \<le> K"
    using assms by simp_all
  then show ?thesis
    unfolding fl_mul_def times_dbl.simps round_dbl_def dbl.case
    using binary64_between[of 0 "k * p" K] assms(3) by simp
qed

lemma bernstein_term_binary64:
  assumes "0 \<le> k" "k \<le> K" "binary64 K = Fin K" "0 \<le> t" "t \<le> 1"
  shows "\<exists>v. fl_mul (fl_mul (Fin k) (fl_pow (Fin t) (Fin (real i))))
                (fl_pow (fl_sub (Fin 1) (Fin t)) (Fin (real j))) = Fin v \<and> 0 \<le> v"
proof -
  obtain p where p: "fl_pow (Fin t) (Fin (real i)) = Fin p" "0 \<le> p" "p \<le> 1"
    using fl_pow_unit[OF assms(4,5)] by blast
  obtain w where w: "fl_sub (Fin 1) (Fin t) = Fin w" "0 \<le> w" "w \<le> 1"
    using one_minus_unit[OF assms(4,5)] by blast
  obtain p' where p': "fl_pow (Fin w) (Fin (real j)) = Fin p'" "0 \<le> p'" "p' \<le> 1"
    using fl_pow_unit[OF w(2,3)] by blast
  obtain m where m: "fl_mul (Fin k) (Fin p) = Fin m" "0 \<le> m" "m \<le> K"
    using fl_mul_unit[OF assms(1,2,3) p(2,3)] by blast
  obtain v where v: "fl_mul (Fin m) (Fin p') = Fin v" "0 \<le> v" "v \<le> K"
    using fl_mul_unit[OF m(2,3) assms(3) p'(2,3)] by blast
  show ?thesis
    unfolding p(1) w(1) p'(1) m(1) using v(1,2) by blast
qed

lemma term_coef_binary64:
  assumes "0 \<le> k0" "k0 \<le> 1" "0 \<le> c" "binary64 c = Fin c"
  shows "\<exists>k. fl_mul (Fin k0) (Fin c) = Fin k \<and> 0 \<le> k \<and> k \<le> c"
proof -
  have "fl_mul (Fin k0) (Fin c) = fl_mul (Fin c) (Fin k0)"
    by (simp add: fl_mul_def mult.commute)
  then show ?thesis
    using fl_mul_unit[OF assms(3) order_refl assms(4) assms(1,2)] by simp
qed

lemma fl_add_nonneg:
  assumes "Fin 0 \<le> r" "0 \<le> v"
  shows "Fin 0 \<le> fl_add r (Fin v)"
proof (cases r)
  case (Fin a)
  then have "0 \<le> a + v"
    using assms by simp
  then have "Fin 0 \<le> binary64 (a + v)"
    by (rule binary64_nonneg)
  then show ?thesis
    by (simp add: Fin fl_add_def round_dbl_def)
next
  case PInf
  then show ?thesis
    by (simp add: fl_add_def round_dbl_def)
qed (use assms in simp_all)

text \<open>So the accumulator of each loop stays non-negative (it may reach \<open>+\<infinity>\<close>).\<close>

lemma bern_loop_left_binary64_nonneg:
  assumes cs: "\<forall>c\<in>set cs. 0 \<le> c \<and> binary64 c = Fin c"
    and k0: "0 \<le> k0" "k0 \<le> 1" and t: "0 \<le> t" "t \<le> 1"
    and r: "Fin 0 \<le> rval"
  shows "Fin 0 \<le> bern_loop_left_binary64 (Fin k0) (map Fin cs) (Fin t) (length cs) i rval"
  using r
proof (induction "Suc (length cs) - i" arbitrary: i rval)
  case 0
  then have "\<not> i \<le> length cs"
    by simp
  then show ?case
    using 0(2) by (subst bern_loop_left_binary64.simps) simp
next
  case (Suc n)
  then have i: "i \<le> length cs"
    by simp
  define term_coef where
    "term_coef = (if i < length cs then fl_mul (Fin k0) (map Fin cs ! i) else Fin k0)"
  have "\<exists>k K. term_coef = Fin k \<and> 0 \<le> k \<and> k \<le> K \<and> binary64 K = Fin K"
  proof (cases "i < length cs")
    case True
    then have c: "0 \<le> cs ! i" "binary64 (cs ! i) = Fin (cs ! i)"
      using cs by simp_all
    obtain k where "fl_mul (Fin k0) (Fin (cs ! i)) = Fin k" "0 \<le> k" "k \<le> cs ! i"
      using term_coef_binary64[OF k0 c] by blast
    then show ?thesis
      using True c(2) by (auto simp: term_coef_def)
  next
    case False
    then show ?thesis
      using k0 binary64_small_values(1) by (auto simp: term_coef_def)
  qed
  then obtain k K where k: "term_coef = Fin k" "0 \<le> k" "k \<le> K" "binary64 K = Fin K"
    by blast
  obtain v where v: "fl_mul (fl_mul (Fin k) (fl_pow (Fin t) (Fin (real i))))
                (fl_pow (fl_sub (Fin 1) (Fin t)) (Fin (real (length cs - i)))) = Fin v" "0 \<le> v"
    using bernstein_term_binary64[OF k(2,3,4) t] by blast
  have step: "bern_loop_left_binary64 (Fin k0) (map Fin cs) (Fin t) (length cs) i rval
        = bern_loop_left_binary64 (Fin k0) (map Fin cs) (Fin t) (length cs) (Suc i)
            (fl_add rval (Fin v))"
    by (subst bern_loop_left_binary64.simps)
       (simp only: i if_True Let_def term_coef_def[symmetric] k(1) v(1))
  have "Fin 0 \<le> fl_add rval (Fin v)"
    by (rule fl_add_nonneg[OF Suc(3) v(2)])
  moreover have "n = Suc (length cs) - Suc i"
    using Suc(2) by simp
  ultimately show ?case
    unfolding step by (rule Suc(1)[rotated])
qed

lemma bern_loop_right_binary64_nonneg:
  assumes cs: "\<forall>c\<in>set cs. 0 \<le> c \<and> binary64 c = Fin c"
    and k0: "0 \<le> k0" "k0 \<le> 1" and t: "0 \<le> t" "t \<le> 1"
    and r: "Fin 0 \<le> rval"
  shows "Fin 0 \<le> bern_loop_right_binary64 (Fin k0) (map Fin cs) (Fin t) (length cs) i rval"
  using r
proof (induction "Suc (length cs) - i" arbitrary: i rval)
  case 0
  then have "\<not> i \<le> length cs"
    by simp
  then show ?case
    using 0(2) by (subst bern_loop_right_binary64.simps) simp
next
  case (Suc n)
  then have i: "i \<le> length cs"
    by simp
  define term_coef where
    "term_coef = (if 0 < i then fl_mul (Fin k0) (map Fin cs ! (i - 1)) else Fin k0)"
  have "\<exists>k K. term_coef = Fin k \<and> 0 \<le> k \<and> k \<le> K \<and> binary64 K = Fin K"
  proof (cases "0 < i")
    case True
    then have l: "i - 1 < length cs"
      using i by simp
    then have c: "0 \<le> cs ! (i - 1)" "binary64 (cs ! (i - 1)) = Fin (cs ! (i - 1))"
      using cs by simp_all
    obtain k where "fl_mul (Fin k0) (Fin (cs ! (i - 1))) = Fin k" "0 \<le> k" "k \<le> cs ! (i - 1)"
      using term_coef_binary64[OF k0 c] by blast
    then show ?thesis
      using True l c(2) by (auto simp: term_coef_def)
  next
    case False
    then show ?thesis
      using k0 binary64_small_values(1) by (auto simp: term_coef_def)
  qed
  then obtain k K where k: "term_coef = Fin k" "0 \<le> k" "k \<le> K" "binary64 K = Fin K"
    by blast
  obtain v where v: "fl_mul (fl_mul (Fin k) (fl_pow (Fin t) (Fin (real i))))
                (fl_pow (fl_sub (Fin 1) (Fin t)) (Fin (real (length cs - i)))) = Fin v" "0 \<le> v"
    using bernstein_term_binary64[OF k(2,3,4) t] by blast
  have step: "bern_loop_right_binary64 (Fin k0) (map Fin cs) (Fin t) (length cs) i rval
        = bern_loop_right_binary64 (Fin k0) (map Fin cs) (Fin t) (length cs) (Suc i)
            (fl_add rval (Fin v))"
    by (subst bern_loop_right_binary64.simps)
       (simp only: i if_True Let_def term_coef_def[symmetric] k(1) v(1))
  have "Fin 0 \<le> fl_add rval (Fin v)"
    by (rule fl_add_nonneg[OF Suc(3) v(2)])
  moreover have "n = Suc (length cs) - Suc i"
    using Suc(2) by simp
  ultimately show ?case
    unfolding step by (rule Suc(1)[rotated])
qed

lemma unit_interval_dbl:
  assumes "Fin 0 \<le> u" "u \<le> Fin 1"
  shows "\<exists>t. u = Fin t \<and> 0 \<le> t \<and> t \<le> 1"
  using assms by (cases u) simp_all

lemma not_less_NaN [simp]: "\<not> a < NaN"
  by (cases a) simp_all

lemma coef0_nonneg:
  assumes "a \<noteq> NaN"
  shows "\<exists>k. exp_dbl (Fin (- 0.5) * a * a) = Fin k \<and> 0 \<le> k"
  using assms by (cases a) simp_all

lemma left_polynomial_nonneg_dbl:
  assumes "\<forall>c\<in>set cs. 0 \<le> c"
    and r: "RooGaussBern_region x x0 sigma alphaL alphaR = LeftPolynomial"
    and u: "Fin 0 \<le> (x - lo) / (x0 - alphaL * sigma - lo)"
      "(x - lo) / (x0 - alphaL * sigma - lo) \<le> Fin 1"
  shows "Fin 0 \<le> left_polynomial x lo x0 sigma alphaL (map Fin cs)"
proof -
  have "alphaL \<noteq> NaN"
    using r by (auto simp: RooGaussBern_region_cases)
  then obtain k where k: "exp_dbl (Fin (- 0.5) * alphaL * alphaL) = Fin k" "0 \<le> k"
    using coef0_nonneg by blast
  obtain t where t: "(x - lo) / (x0 - alphaL * sigma - lo) = Fin t" "0 \<le> t" "t \<le> 1"
    using unit_interval_dbl[OF u] by blast
  show ?thesis
    unfolding left_polynomial_def Let_def length_map k(1) t(1) bern_loop_left_sum0 less_eq_dbl.simps
    by (rule left_sum_nonneg[OF assms(1) k(2) t(2,3)])
qed

lemma minus_NaN [simp]: "a - NaN = NaN"
  by (simp add: minus_dbl_def)

lemma right_polynomial_nonneg_dbl:
  assumes "\<forall>c\<in>set cs. 0 \<le> c"
    and u: "Fin 0 \<le> (x - (x0 + alphaR * sigma)) / (hi - (x0 + alphaR * sigma))"
      "(x - (x0 + alphaR * sigma)) / (hi - (x0 + alphaR * sigma)) \<le> Fin 1"
  shows "Fin 0 \<le> right_polynomial x hi x0 sigma alphaR (map Fin cs)"
proof -
  have "alphaR \<noteq> NaN"
    using u(1) by auto
  then obtain k where k: "exp_dbl (Fin (- 0.5) * alphaR * alphaR) = Fin k" "0 \<le> k"
    using coef0_nonneg by blast
  obtain t where t: "(x - (x0 + alphaR * sigma)) / (hi - (x0 + alphaR * sigma)) = Fin t"
      "0 \<le> t" "t \<le> 1"
    using unit_interval_dbl[OF u] by blast
  show ?thesis
    unfolding right_polynomial_def Let_def length_map k(1) t(1) bern_loop_right_sum0 less_eq_dbl.simps
    by (rule right_sum_nonneg[OF assms(1) k(2) t(2,3)])
qed

lemma RooGaussBern_evaluate_binary64_region:
  "RooGaussBern_evaluate_binary64 x x_min x_max x0 sigma alphaL alphaR bernCoefsL bernCoefsR =
     (case RooGaussBern_region_binary64 x x0 sigma alphaL alphaR of
        LeftPolynomial \<Rightarrow>
          bern_loop_left_binary64 (fl_exp (fl_mul (fl_mul (Fin (- 0.5)) alphaL) alphaL)) bernCoefsL
            (fl_div (fl_sub x x_min) (fl_sub (fl_sub x0 (fl_mul alphaL sigma)) x_min))
            (length bernCoefsL) 0 (Fin 0)
      | Gaussian \<Rightarrow>
          fl_exp (fl_mul (fl_mul (Fin (- 0.5)) (fl_div (fl_sub x x0) sigma))
                    (fl_div (fl_sub x x0) sigma))
      | RightPolynomial \<Rightarrow>
          bern_loop_right_binary64 (fl_exp (fl_mul (fl_mul (Fin (- 0.5)) alphaR) alphaR)) bernCoefsR
            (fl_div (fl_sub x (fl_add x0 (fl_mul alphaR sigma)))
               (fl_sub x_max (fl_add x0 (fl_mul alphaR sigma))))
            (length bernCoefsR) 0 (Fin 0))"
  by (simp add: RooGaussBern_evaluate_binary64_def RooGaussBern_region_binary64_def Let_def)

lemma fl_NaN_left:
  "fl_mul NaN b = NaN" "fl_add a NaN = NaN" "fl_sub a NaN = NaN" "fl_div NaN b = NaN"
  by (simp_all add: fl_mul_def fl_add_def fl_sub_def fl_div_def round_dbl_def)

lemma left_binary64_nonneg:
  assumes cs: "\<forall>c\<in>set cs. 0 \<le> c \<and> binary64 c = Fin c"
    and r: "RooGaussBern_region_binary64 x x0 sigma alphaL alphaR = LeftPolynomial"
    and u: "Fin 0 \<le> fl_div (fl_sub x lo) (fl_sub (fl_sub x0 (fl_mul alphaL sigma)) lo)"
      "fl_div (fl_sub x lo) (fl_sub (fl_sub x0 (fl_mul alphaL sigma)) lo) \<le> Fin 1"
  shows "Fin 0 \<le> RooGaussBern_evaluate_binary64 x lo hi x0 sigma alphaL alphaR (map Fin cs) csR"
proof -
  have "alphaL \<noteq> NaN"
    using r by (auto simp: RooGaussBern_region_binary64_def Let_def fl_NaN(2) split: if_splits)
  then obtain k where k: "fl_exp (fl_mul (fl_mul (Fin (- 0.5)) alphaL) alphaL) = Fin k"
      "0 \<le> k" "k \<le> 1"
    using gaussian_binary64_unit by blast
  obtain t where t: "fl_div (fl_sub x lo) (fl_sub (fl_sub x0 (fl_mul alphaL sigma)) lo) = Fin t"
      "0 \<le> t" "t \<le> 1"
    using unit_interval_dbl[OF u] by blast
  have z: "Fin 0 \<le> Fin 0"
    by simp
  show ?thesis
    unfolding RooGaussBern_evaluate_binary64_region r bern_region.case length_map k(1) t(1)
    by (rule bern_loop_left_binary64_nonneg[OF cs k(2,3) t(2,3) z])
qed

lemma gaussian_region_binary64_nonneg:
  assumes r: "RooGaussBern_region_binary64 x x0 sigma alphaL alphaR = Gaussian"
  shows "Fin 0 \<le> RooGaussBern_evaluate_binary64 x lo hi x0 sigma alphaL alphaR csL csR"
proof -
  have "fl_div (fl_sub x x0) sigma < alphaR"
    using r by (auto simp: RooGaussBern_region_binary64_def Let_def split: if_splits)
  then have "fl_div (fl_sub x x0) sigma \<noteq> NaN"
    by auto
  then obtain k where "fl_exp (fl_mul (fl_mul (Fin (- 0.5)) (fl_div (fl_sub x x0) sigma))
                    (fl_div (fl_sub x x0) sigma)) = Fin k" "0 \<le> k"
    using gaussian_binary64_unit by blast
  then show ?thesis
    unfolding RooGaussBern_evaluate_binary64_region r bern_region.case by simp
qed

lemma right_binary64_nonneg:
  assumes cs: "\<forall>c\<in>set cs. 0 \<le> c \<and> binary64 c = Fin c"
    and r: "RooGaussBern_region_binary64 x x0 sigma alphaL alphaR = RightPolynomial"
    and u: "Fin 0 \<le> fl_div (fl_sub x (fl_add x0 (fl_mul alphaR sigma)))
                        (fl_sub hi (fl_add x0 (fl_mul alphaR sigma)))"
      "fl_div (fl_sub x (fl_add x0 (fl_mul alphaR sigma)))
              (fl_sub hi (fl_add x0 (fl_mul alphaR sigma))) \<le> Fin 1"
  shows "Fin 0 \<le> RooGaussBern_evaluate_binary64 x lo hi x0 sigma alphaL alphaR csL (map Fin cs)"
proof -
  have "alphaR \<noteq> NaN"
    using u(1) by (auto simp: fl_NaN_left)
  then obtain k where k: "fl_exp (fl_mul (fl_mul (Fin (- 0.5)) alphaR) alphaR) = Fin k"
      "0 \<le> k" "k \<le> 1"
    using gaussian_binary64_unit by blast
  obtain t where t: "fl_div (fl_sub x (fl_add x0 (fl_mul alphaR sigma)))
              (fl_sub hi (fl_add x0 (fl_mul alphaR sigma))) = Fin t"
      "0 \<le> t" "t \<le> 1"
    using unit_interval_dbl[OF u] by blast
  have z: "Fin 0 \<le> Fin 0"
    by simp
  show ?thesis
    unfolding RooGaussBern_evaluate_binary64_region r bern_region.case length_map k(1) t(1)
    by (rule bern_loop_right_binary64_nonneg[OF cs k(2,3) t(2,3) z])
qed

lemma binary64_more_values:
  "binary64 3 = Fin 3" "binary64 (- 3) = Fin (- 3)" "binary64 4 = Fin 4"
  "binary64 5 = Fin 5" "binary64 (- 5) = Fin (- 5)"
  using binary64_int[of 3] binary64_int[of "- 3"] binary64_int[of 4] binary64_int[of 5]
    binary64_int[of "- 5"]
  by simp_all

lemma fl_arith_bern:
  "fl_div (fl_sub (Fin (- 3)) (Fin 0)) (Fin 1) = Fin (- 3)"
  "fl_div (fl_sub (Fin 0) (Fin 0)) (Fin 1) = Fin 0"
  "fl_div (fl_sub (Fin 3) (Fin 0)) (Fin 1) = Fin 3"
  "fl_mul (Fin (- 1)) (Fin 1) = Fin (- 1)"
  "fl_div (fl_sub (Fin (- 3)) (Fin (- 5))) (fl_sub (fl_sub (Fin 0) (fl_mul (Fin 1) (Fin 1))) (Fin (- 5)))
   = Fin (1 / 2)"
  "fl_div (fl_sub (Fin 3) (fl_add (Fin 0) (fl_mul (Fin 1) (Fin 1))))
          (fl_sub (Fin 5) (fl_add (Fin 0) (fl_mul (Fin 1) (Fin 1)))) = Fin (1 / 2)"
  by (simp_all add: fl_div_def fl_sub_def fl_add_def fl_mul_def round_dbl_def
      binary64_small_values binary64_more_values)

lemma binary64_quarters:
  "binary64 (3 / 2) = Fin (3 / 2)" "binary64 (- (1 / 4)) = Fin (- (1 / 4))"
  "binary64 (- 7) = Fin (- 7)" "binary64 (- 2) = Fin (- 2)"
proof -
  show "binary64 (3 / 2) = Fin (3 / 2)"
    using binary64_half_int[of 3] by simp
  have "binary64 (of_int (- 1) * 2 powr (of_int (- 2))) = Fin (of_int (- 1) * 2 powr (of_int (- 2)))"
    by (rule binary64_representable) simp_all
  moreover have "(2::real) powr (- 2) = 1 / 4"
    by (simp add: powr_minus_divide)
  ultimately show "binary64 (- (1 / 4)) = Fin (- (1 / 4))"
    by simp
  show "binary64 (- 7) = Fin (- 7)" "binary64 (- 2) = Fin (- 2)"
    using binary64_int[of "- 7"] binary64_int[of "- 2"] by simp_all
qed

lemma coef0_one_binary64:
  "\<exists>e. fl_exp (fl_mul (fl_mul (Fin (- 0.5)) (Fin 1)) (Fin 1)) = Fin e \<and> 1 / 2 \<le> e \<and> e \<le> 1"
proof -
  have "\<exists>e. binary64 (exp (- (1 / 2))) = Fin e \<and> 1 / 2 \<le> e \<and> e \<le> 1"
    using exp_half_bounds by (intro binary64_between binary64_small_values) simp_all
  then show ?thesis
    by (simp add: fl_arith_200 fl_exp_def round_dbl_def)
qed

lemma negative_term_binary64:
  assumes "1 / 2 \<le> e" "e \<le> 1"
  shows "\<exists>m. fl_add (Fin 0) (fl_mul (fl_mul (Fin e) (Fin (- (1 / 2)))) (Fin 1)) = Fin m
             \<and> m \<le> - (1 / 4)"
proof -
  have "- (1 / 2) \<le> - (e / 2)" "- (e / 2) \<le> - (1 / 4)"
    using assms by simp_all
  then obtain m1 where m1: "binary64 (- (e / 2)) = Fin m1" "- (1 / 2) \<le> m1" "m1 \<le> - (1 / 4)"
    using binary64_between[of "- (1 / 2)" "- (e / 2)" "- (1 / 4)"]
      binary64_small_values(7) binary64_quarters(2) by blast
  obtain m2 where m2: "binary64 m1 = Fin m2" "- (1 / 2) \<le> m2" "m2 \<le> - (1 / 4)"
    using binary64_between[OF m1(2,3)] binary64_small_values(7) binary64_quarters(2) by blast
  obtain m3 where m3: "binary64 m2 = Fin m3" "- (1 / 2) \<le> m3" "m3 \<le> - (1 / 4)"
    using binary64_between[OF m2(2,3)] binary64_small_values(7) binary64_quarters(2) by blast
  have "fl_add (Fin 0) (fl_mul (fl_mul (Fin e) (Fin (- (1 / 2)))) (Fin 1)) = Fin m3"
    by (simp add: fl_add_def fl_mul_def round_dbl_def m1(1) m2(1) m3(1))
  then show ?thesis
    using m3(3) by blast
qed

lemma left_loop_binary64_negative:
  assumes "1 / 2 \<le> e" "e \<le> 1"
  shows "\<exists>m. bern_loop_left_binary64 (Fin e) [Fin 0] (Fin (- (1 / 2))) 1 0 (Fin 0) = Fin m
             \<and> m \<le> - (1 / 4)"
proof -
  have p: "fl_pow (Fin (- (1 / 2))) (Fin 0) = Fin 1" "fl_pow (Fin (- (1 / 2))) (Fin 1) = Fin (- (1 / 2))"
    "fl_sub (Fin 1) (Fin (- (1 / 2))) = Fin (3 / 2)"
    "fl_pow (Fin (3 / 2)) (Fin 0) = Fin 1" "fl_pow (Fin (3 / 2)) (Fin 1) = Fin (3 / 2)"
    "fl_mul (Fin e) (Fin 0) = Fin 0" "fl_mul (Fin 0) (Fin 1) = Fin 0"
    "fl_mul (Fin 0) (Fin (3 / 2)) = Fin 0" "fl_add (Fin 0) (Fin 0) = Fin 0"
    using TMath_Power_nat[of "- (1 / 2)" 1] TMath_Power_nat[of "3 / 2" 1]
    by (simp_all add: fl_pow_def fl_sub_def fl_mul_def fl_add_def round_dbl_def
        binary64_small_values binary64_quarters)
  have "bern_loop_left_binary64 (Fin e) [Fin 0] (Fin (- (1 / 2))) 1 0 (Fin 0)
        = fl_add (Fin 0) (fl_mul (fl_mul (Fin e) (Fin (- (1 / 2)))) (Fin 1))"
    apply (subst bern_loop_left_binary64.simps)
    apply (subst bern_loop_left_binary64.simps)
    apply (subst bern_loop_left_binary64.simps)
    apply (simp add: Let_def p)
    done
  then show ?thesis
    using negative_term_binary64[OF assms] by simp
qed

lemma right_loop_binary64_NaN:
  "bern_loop_right_binary64 c [Fin 1] NaN 1 0 (Fin 0) = NaN"
  apply (subst bern_loop_right_binary64.simps)
  apply (subst bern_loop_right_binary64.simps)
  apply (subst bern_loop_right_binary64.simps)
  apply (simp add: Let_def fl_NaN fl_NaN_left fl_pow_def round_dbl_def)
  done

lemma fl_arith_outside:
  "fl_div (fl_sub (Fin (- 7)) (Fin 0)) (Fin 1) = Fin (- 7)"
  "fl_div (fl_sub (Fin (- 7)) (Fin (- 5))) (fl_sub (fl_sub (Fin 0) (fl_mul (Fin 1) (Fin 1))) (Fin (- 5)))
   = Fin (- (1 / 2))"
  "fl_div (fl_sub (Fin 1) (Fin 0)) (Fin 1) = Fin 1"
  "fl_div (fl_sub (Fin 1) (fl_add (Fin 0) (fl_mul (Fin 1) (Fin 1))))
          (fl_sub (Fin 1) (fl_add (Fin 0) (fl_mul (Fin 1) (Fin 1)))) = NaN"
  by (simp_all add: fl_div_def fl_sub_def fl_add_def fl_mul_def round_dbl_def
      binary64_small_values binary64_more_values binary64_quarters)

text \<open>
  C9.  As stated the claim fails: non-negative coefficients and \<open>sigma > 0\<close> do not make the
  whole output non-negative.  With the domain \<open>[- 5, 5]\<close>, \<open>x0 = 0\<close>, \<open>sigma = 1\<close>, both
  boundaries 1 and the left coefficient list \<open>[0]\<close>, the point \<open>x = - 7\<close> has
  \<open>x_scaled = - 1 / 2\<close> and the value returned is negative (\<open>- exp (- 1 / 2) / 2\<close> in exact
  arithmetic, at most \<open>- 1 / 4\<close> in binary64 arithmetic).  And with the upper edge of the
  domain on the right boundary (\<open>high_edge = 1\<close>) the point \<open>x = 1\<close> has \<open>x_scaled = 0 / 0\<close>
  and the value returned is NaN, in both arithmetics.
\<close>

theorem negative_outside_unit_interval:
  "RooGaussBern_evaluate (Fin (- 7)) (Fin (- 5)) (Fin 5) (Fin 0) (Fin 1) (Fin 1) (Fin 1)
      [Fin 0] [] < Fin 0
   \<and> \<not> Fin 0 \<le> RooGaussBern_evaluate (Fin (- 7)) (Fin (- 5)) (Fin 5) (Fin 0) (Fin 1) (Fin 1) (Fin 1)
      [Fin 0] []
   \<and> RooGaussBern_evaluate (Fin 1) (Fin (- 5)) (Fin 1) (Fin 0) (Fin 1) (Fin 1) (Fin 1)
      [] [Fin 1] = NaN
   \<and> \<not> Fin 0 \<le> RooGaussBern_evaluate (Fin 1) (Fin (- 5)) (Fin 1) (Fin 0) (Fin 1) (Fin 1) (Fin 1)
      [] [Fin 1]
   \<and> RooGaussBern_evaluate_binary64 (Fin (- 7)) (Fin (- 5)) (Fin 5) (Fin 0) (Fin 1) (Fin 1) (Fin 1)
      [Fin 0] [] < Fin 0
   \<and> \<not> Fin 0 \<le> RooGaussBern_evaluate_binary64 (Fin (- 7)) (Fin (- 5)) (Fin 5) (Fin 0) (Fin 1)
      (Fin 1) (Fin 1) [Fin 0] []
   \<and> RooGaussBern_evaluate_binary64 (Fin 1) (Fin (- 5)) (Fin 1) (Fin 0) (Fin 1) (Fin 1) (Fin 1)
      [] [Fin 1] = NaN
   \<and> \<not> Fin 0 \<le> RooGaussBern_evaluate_binary64 (Fin 1) (Fin (- 5)) (Fin 1) (Fin 0) (Fin 1)
      (Fin 1) (Fin 1) [] [Fin 1]"
proof -
  have s: "{0..Suc 0} = {0, Suc 0}"
    by auto
  have r1: "RooGaussBern_region (Fin (- 7)) (Fin 0) (Fin 1) (Fin 1) (Fin 1) = LeftPolynomial"
    by (simp add: RooGaussBern_region_def)
  have n: "(0::real) - 1 * 1 - (- 5) \<noteq> 0"
    by simp
  have "RooGaussBern_evaluate (Fin (- 7)) (Fin (- 5)) (Fin 5) (Fin 0) (Fin 1) (Fin 1) (Fin 1)
      (map Fin [0]) (map Fin []) = Fin (- (exp (- (1 / 2)) / 2))"
    unfolding RooGaussBern_evaluate_region r1 bern_region.case left_polynomial_sum[OF n]
    by (simp add: s)
  then have a: "RooGaussBern_evaluate (Fin (- 7)) (Fin (- 5)) (Fin 5) (Fin 0) (Fin 1) (Fin 1) (Fin 1)
      [Fin 0] [] = Fin (- (exp (- (1 / 2)) / 2))"
    by simp
  have r2: "RooGaussBern_region (Fin 1) (Fin 0) (Fin 1) (Fin 1) (Fin 1) = RightPolynomial"
    by (simp add: RooGaussBern_region_def)
  have b: "RooGaussBern_evaluate (Fin 1) (Fin (- 5)) (Fin 1) (Fin 0) (Fin 1) (Fin 1) (Fin 1)
      [] [Fin 1] = NaN"
    unfolding RooGaussBern_evaluate_region r2 bern_region.case right_polynomial_def Let_def
    apply (subst bern_loop_right.simps)
    apply (subst bern_loop_right.simps)
    apply (subst bern_loop_right.simps)
    apply (simp add: Let_def minus_dbl_def)
    done
  have r3: "RooGaussBern_region_binary64 (Fin (- 7)) (Fin 0) (Fin 1) (Fin 1) (Fin 1) = LeftPolynomial"
    by (simp add: RooGaussBern_region_binary64_def fl_arith_outside fl_arith_200)
  obtain e where e: "fl_exp (fl_mul (fl_mul (Fin (- 0.5)) (Fin 1)) (Fin 1)) = Fin e"
      "1 / 2 \<le> e" "e \<le> 1"
    using coef0_one_binary64 by blast
  obtain m where m: "bern_loop_left_binary64 (Fin e) [Fin 0] (Fin (- (1 / 2))) 1 0 (Fin 0) = Fin m"
      "m \<le> - (1 / 4)"
    using left_loop_binary64_negative[OF e(2,3)] by blast
  have c: "RooGaussBern_evaluate_binary64 (Fin (- 7)) (Fin (- 5)) (Fin 5) (Fin 0) (Fin 1) (Fin 1)
      (Fin 1) [Fin 0] [] = Fin m"
    unfolding RooGaussBern_evaluate_binary64_region r3 bern_region.case e(1) fl_arith_outside
    using m(1) by simp
  have r4: "RooGaussBern_region_binary64 (Fin 1) (Fin 0) (Fin 1) (Fin 1) (Fin 1) = RightPolynomial"
    by (simp add: RooGaussBern_region_binary64_def fl_arith_outside fl_arith_200)
  have d: "RooGaussBern_evaluate_binary64 (Fin 1) (Fin (- 5)) (Fin 1) (Fin 0) (Fin 1) (Fin 1)
      (Fin 1) [] [Fin 1] = NaN"
    unfolding RooGaussBern_evaluate_binary64_region r4 bern_region.case fl_arith_outside
    using right_loop_binary64_NaN by simp
  show ?thesis
    unfolding a b c d using m(2) by simp
qed

text \<open>
  C9, as amended.  With all coefficients of both lists non-negative, the value returned
  by \<^verbatim>\<open>evaluate\<close> is non-negative wherever \<open>x\<close> falls in a tail and the rescaled coordinate
  \<^verbatim>\<open>x_scaled\<close> of that tail lies in \<open>[0, 1]\<close>, and wherever \<open>x\<close> falls in the Gaussian region;
  the region and \<^verbatim>\<open>x_scaled\<close> are the ones the evaluator computes, and \<open>x\<close>, the edges and the
  parameters are any values, special ones included.  This holds in exact arithmetic
  and, the coefficients being doubles, in binary64 arithmetic, where the value may be
  \<open>+\<infinity>\<close>.  Nothing is said of an \<open>x\<close> whose \<^verbatim>\<open>x_scaled\<close> is outside \<open>[0, 1]\<close>.
\<close>

theorem nonnegative_coefficients:
  assumes "\<forall>c\<in>set csL. 0 \<le> c" "\<forall>c\<in>set csR. 0 \<le> c"
  shows "(RooGaussBern_region x x0 sigma alphaL alphaR = LeftPolynomial
          \<and> Fin 0 \<le> (x - lo) / (x0 - alphaL * sigma - lo)
          \<and> (x - lo) / (x0 - alphaL * sigma - lo) \<le> Fin 1
          \<longrightarrow> Fin 0 \<le> RooGaussBern_evaluate x lo hi x0 sigma alphaL alphaR
                        (map Fin csL) (map Fin csR))
       \<and> (RooGaussBern_region x x0 sigma alphaL alphaR = Gaussian
          \<longrightarrow> Fin 0 \<le> RooGaussBern_evaluate x lo hi x0 sigma alphaL alphaR
                        (map Fin csL) (map Fin csR))
       \<and> (RooGaussBern_region x x0 sigma alphaL alphaR = RightPolynomial
          \<and> Fin 0 \<le> (x - (x0 + alphaR * sigma)) / (hi - (x0 + alphaR * sigma))
          \<and> (x - (x0 + alphaR * sigma)) / (hi - (x0 + alphaR * sigma)) \<le> Fin 1
          \<longrightarrow> Fin 0 \<le> RooGaussBern_evaluate x lo hi x0 sigma alphaL alphaR
                        (map Fin csL) (map Fin csR))
       \<and> ((\<forall>c\<in>set csL. binary64 c = Fin c) \<and> (\<forall>c\<in>set csR. binary64 c = Fin c) \<longrightarrow>
          (RooGaussBern_region_binary64 x x0 sigma alphaL alphaR = LeftPolynomial
           \<and> Fin 0 \<le> fl_div (fl_sub x lo) (fl_sub (fl_sub x0 (fl_mul alphaL sigma)) lo)
           \<and> fl_div (fl_sub x lo) (fl_sub (fl_sub x0 (fl_mul alphaL sigma)) lo) \<le> Fin 1
           \<longrightarrow> Fin 0 \<le> RooGaussBern_evaluate_binary64 x lo hi x0 sigma alphaL alphaR
                         (map Fin csL) (map Fin csR))
        \<and> (RooGaussBern_region_binary64 x x0 sigma alphaL alphaR = Gaussian
           \<longrightarrow> Fin 0 \<le> RooGaussBern_evaluate_binary64 x lo hi x0 sigma alphaL alphaR
                         (map Fin csL) (map Fin csR))
        \<and> (RooGaussBern_region_binary64 x x0 sigma alphaL alphaR = RightPolynomial
           \<and> Fin 0 \<le> fl_div (fl_sub x (fl_add x0 (fl_mul alphaR sigma)))
                         (fl_sub hi (fl_add x0 (fl_mul alphaR sigma)))
           \<and> fl_div (fl_sub x (fl_add x0 (fl_mul alphaR sigma)))
                         (fl_sub hi (fl_add x0 (fl_mul alphaR sigma))) \<le> Fin 1
           \<longrightarrow> Fin 0 \<le> RooGaussBern_evaluate_binary64 x lo hi x0 sigma alphaL alphaR
                         (map Fin csL) (map Fin csR)))"
proof (intro conjI impI; (elim conjE)?)
  assume r: "RooGaussBern_region x x0 sigma alphaL alphaR = LeftPolynomial"
    and u: "Fin 0 \<le> (x - lo) / (x0 - alphaL * sigma - lo)"
      "(x - lo) / (x0 - alphaL * sigma - lo) \<le> Fin 1"
  show "Fin 0 \<le> RooGaussBern_evaluate x lo hi x0 sigma alphaL alphaR (map Fin csL) (map Fin csR)"
    unfolding RooGaussBern_evaluate_region r bern_region.case
    by (rule left_polynomial_nonneg_dbl[OF assms(1) r u])
next
  assume r: "RooGaussBern_region x x0 sigma alphaL alphaR = Gaussian"
  then have "(x - x0) / sigma < alphaR"
    by (simp only: RooGaussBern_region_cases)
  then show "Fin 0 \<le> RooGaussBern_evaluate x lo hi x0 sigma alphaL alphaR (map Fin csL) (map Fin csR)"
    unfolding RooGaussBern_evaluate_region r bern_region.case
    by (rule gaussian_nonneg)
next
  assume r: "RooGaussBern_region x x0 sigma alphaL alphaR = RightPolynomial"
    and u: "Fin 0 \<le> (x - (x0 + alphaR * sigma)) / (hi - (x0 + alphaR * sigma))"
      "(x - (x0 + alphaR * sigma)) / (hi - (x0 + alphaR * sigma)) \<le> Fin 1"
  show "Fin 0 \<le> RooGaussBern_evaluate x lo hi x0 sigma alphaL alphaR (map Fin csL) (map Fin csR)"
    unfolding RooGaussBern_evaluate_region r bern_region.case
    by (rule right_polynomial_nonneg_dbl[OF assms(2) u])
next
  assume d: "\<forall>c\<in>set csL. binary64 c = Fin c"
    and r: "RooGaussBern_region_binary64 x x0 sigma alphaL alphaR = LeftPolynomial"
    and u: "Fin 0 \<le> fl_div (fl_sub x lo) (fl_sub (fl_sub x0 (fl_mul alphaL sigma)) lo)"
      "fl_div (fl_sub x lo) (fl_sub (fl_sub x0 (fl_mul alphaL sigma)) lo) \<le> Fin 1"
  have cs: "\<forall>c\<in>set csL. 0 \<le> c \<and> binary64 c = Fin c"
    using assms(1) d by blast
  show "Fin 0 \<le> RooGaussBern_evaluate_binary64 x lo hi x0 sigma alphaL alphaR
                   (map Fin csL) (map Fin csR)"
    by (rule left_binary64_nonneg[OF cs r u])
next
  assume r: "RooGaussBern_region_binary64 x x0 sigma alphaL alphaR = Gaussian"
  show "Fin 0 \<le> RooGaussBern_evaluate_binary64 x lo hi x0 sigma alphaL alphaR
                   (map Fin csL) (map Fin csR)"
    by (rule gaussian_region_binary64_nonneg[OF r])
next
  assume d: "\<forall>c\<in>set csR. binary64 c = Fin c"
    and r: "RooGaussBern_region_binary64 x x0 sigma alphaL alphaR = RightPolynomial"
    and u: "Fin 0 \<le> fl_div (fl_sub x (fl_add x0 (fl_mul alphaR sigma)))
                         (fl_sub hi (fl_add x0 (fl_mul alphaR sigma)))"
      "fl_div (fl_sub x (fl_add x0 (fl_mul alphaR sigma)))
                         (fl_sub hi (fl_add x0 (fl_mul alphaR sigma))) \<le> Fin 1"
  have cs: "\<forall>c\<in>set csR. 0 \<le> c \<and> binary64 c = Fin c"
    using assms(2) d by blast
  show "Fin 0 \<le> RooGaussBern_evaluate_binary64 x lo hi x0 sigma alphaL alphaR
                   (map Fin csL) (map Fin csR)"
    by (rule right_binary64_nonneg[OF cs r u])
qed

theorem nonnegative_coefficients_witness:
  "(0::real) \<le> 2 \<and> (0::real) \<le> 3 \<and> binary64 2 = Fin 2 \<and> binary64 3 = Fin 3
   \<and> RooGaussBern_region (Fin (- 3)) (Fin 0) (Fin 1) (Fin 1) (Fin 1) = LeftPolynomial
   \<and> Fin 0 \<le> (Fin (- 3) - Fin (- 5)) / (Fin 0 - Fin 1 * Fin 1 - Fin (- 5))
   \<and> (Fin (- 3) - Fin (- 5)) / (Fin 0 - Fin 1 * Fin 1 - Fin (- 5)) \<le> Fin 1
   \<and> Fin 0 \<le> RooGaussBern_evaluate (Fin (- 3)) (Fin (- 5)) (Fin 5) (Fin 0) (Fin 1)
                (Fin 1) (Fin 1) (map Fin [2]) (map Fin [3])
   \<and> RooGaussBern_region (Fin 0) (Fin 0) (Fin 1) (Fin 1) (Fin 1) = Gaussian
   \<and> Fin 0 \<le> RooGaussBern_evaluate (Fin 0) (Fin (- 5)) (Fin 5) (Fin 0) (Fin 1)
                (Fin 1) (Fin 1) (map Fin [2]) (map Fin [3])
   \<and> RooGaussBern_region (Fin 3) (Fin 0) (Fin 1) (Fin 1) (Fin 1) = RightPolynomial
   \<and> Fin 0 \<le> (Fin 3 - (Fin 0 + Fin 1 * Fin 1)) / (Fin 5 - (Fin 0 + Fin 1 * Fin 1))
   \<and> (Fin 3 - (Fin 0 + Fin 1 * Fin 1)) / (Fin 5 - (Fin 0 + Fin 1 * Fin 1)) \<le> Fin 1
   \<and> Fin 0 \<le> RooGaussBern_evaluate (Fin 3) (Fin (- 5)) (Fin 5) (Fin 0) (Fin 1)
                (Fin 1) (Fin 1) (map Fin [2]) (map Fin [3])
   \<and> RooGaussBern_region_binary64 (Fin (- 3)) (Fin 0) (Fin 1) (Fin 1) (Fin 1) = LeftPolynomial
   \<and> Fin 0 \<le> fl_div (fl_sub (Fin (- 3)) (Fin (- 5)))
                (fl_sub (fl_sub (Fin 0) (fl_mul (Fin 1) (Fin 1))) (Fin (- 5)))
   \<and> fl_div (fl_sub (Fin (- 3)) (Fin (- 5)))
                (fl_sub (fl_sub (Fin 0) (fl_mul (Fin 1) (Fin 1))) (Fin (- 5))) \<le> Fin 1
   \<and> Fin 0 \<le> RooGaussBern_evaluate_binary64 (Fin (- 3)) (Fin (- 5)) (Fin 5) (Fin 0) (Fin 1)
                (Fin 1) (Fin 1) (map Fin [2]) (map Fin [3])
   \<and> RooGaussBern_region_binary64 (Fin 0) (Fin 0) (Fin 1) (Fin 1) (Fin 1) = Gaussian
   \<and> Fin 0 \<le> RooGaussBern_evaluate_binary64 (Fin 0) (Fin (- 5)) (Fin 5) (Fin 0) (Fin 1)
                (Fin 1) (Fin 1) (map Fin [2]) (map Fin [3])
   \<and> RooGaussBern_region_binary64 (Fin 3) (Fin 0) (Fin 1) (Fin 1) (Fin 1) = RightPolynomial
   \<and> Fin 0 \<le> fl_div (fl_sub (Fin 3) (fl_add (Fin 0) (fl_mul (Fin 1) (Fin 1))))
                (fl_sub (Fin 5) (fl_add (Fin 0) (fl_mul (Fin 1) (Fin 1))))
   \<and> fl_div (fl_sub (Fin 3) (fl_add (Fin 0) (fl_mul (Fin 1) (Fin 1))))
                (fl_sub (Fin 5) (fl_add (Fin 0) (fl_mul (Fin 1) (Fin 1)))) \<le> Fin 1
   \<and> Fin 0 \<le> RooGaussBern_evaluate_binary64 (Fin 3) (Fin (- 5)) (Fin 5) (Fin 0) (Fin 1)
                (Fin 1) (Fin 1) (map Fin [2]) (map Fin [3])"
proof -
  have c: "\<forall>c\<in>set [2::real]. 0 \<le> c" "\<forall>c\<in>set [3::real]. 0 \<le> c"
    by simp_all
  have d: "\<forall>c\<in>set [2::real]. binary64 c = Fin c" "\<forall>c\<in>set [3::real]. binary64 c = Fin c"
    by (simp_all add: binary64_small_values binary64_more_values)
  have p: "(0::real) \<le> 2 \<and> (0::real) \<le> 3 \<and> binary64 2 = Fin 2 \<and> binary64 3 = Fin 3"
    by (simp add: binary64_small_values binary64_more_values)
  have r: "RooGaussBern_region (Fin (- 3)) (Fin 0) (Fin 1) (Fin 1) (Fin 1) = LeftPolynomial"
    "RooGaussBern_region (Fin 0) (Fin 0) (Fin 1) (Fin 1) (Fin 1) = Gaussian"
    "RooGaussBern_region (Fin 3) (Fin 0) (Fin 1) (Fin 1) (Fin 1) = RightPolynomial"
    by (simp_all add: RooGaussBern_region_def)
  have u: "Fin 0 \<le> (Fin (- 3) - Fin (- 5)) / (Fin 0 - Fin 1 * Fin 1 - Fin (- 5))"
    "(Fin (- 3) - Fin (- 5)) / (Fin 0 - Fin 1 * Fin 1 - Fin (- 5)) \<le> Fin 1"
    "Fin 0 \<le> (Fin 3 - (Fin 0 + Fin 1 * Fin 1)) / (Fin 5 - (Fin 0 + Fin 1 * Fin 1))"
    "(Fin 3 - (Fin 0 + Fin 1 * Fin 1)) / (Fin 5 - (Fin 0 + Fin 1 * Fin 1)) \<le> Fin 1"
    by simp_all
  have r64: "RooGaussBern_region_binary64 (Fin (- 3)) (Fin 0) (Fin 1) (Fin 1) (Fin 1) = LeftPolynomial"
    "RooGaussBern_region_binary64 (Fin 0) (Fin 0) (Fin 1) (Fin 1) (Fin 1) = Gaussian"
    "RooGaussBern_region_binary64 (Fin 3) (Fin 0) (Fin 1) (Fin 1) (Fin 1) = RightPolynomial"
    by (simp_all add: RooGaussBern_region_binary64_def fl_arith_bern)
  have u64: "Fin 0 \<le> fl_div (fl_sub (Fin (- 3)) (Fin (- 5)))
                (fl_sub (fl_sub (Fin 0) (fl_mul (Fin 1) (Fin 1))) (Fin (- 5)))"
    "fl_div (fl_sub (Fin (- 3)) (Fin (- 5)))
                (fl_sub (fl_sub (Fin 0) (fl_mul (Fin 1) (Fin 1))) (Fin (- 5))) \<le> Fin 1"
    "Fin 0 \<le> fl_div (fl_sub (Fin 3) (fl_add (Fin 0) (fl_mul (Fin 1) (Fin 1))))
                (fl_sub (Fin 5) (fl_add (Fin 0) (fl_mul (Fin 1) (Fin 1))))"
    "fl_div (fl_sub (Fin 3) (fl_add (Fin 0) (fl_mul (Fin 1) (Fin 1))))
                (fl_sub (Fin 5) (fl_add (Fin 0) (fl_mul (Fin 1) (Fin 1)))) \<le> Fin 1"
    by (simp_all add: fl_arith_bern)
  note L = nonnegative_coefficients[OF c, of "Fin (- 3)" "Fin 0" "Fin 1" "Fin 1" "Fin 1" "Fin (- 5)" "Fin 5"]
  note G = nonnegative_coefficients[OF c, of "Fin 0" "Fin 0" "Fin 1" "Fin 1" "Fin 1" "Fin (- 5)" "Fin 5"]
  note R = nonnegative_coefficients[OF c, of "Fin 3" "Fin 0" "Fin 1" "Fin 1" "Fin 1" "Fin (- 5)" "Fin 5"]
  have e1: "Fin 0 \<le> RooGaussBern_evaluate (Fin (- 3)) (Fin (- 5)) (Fin 5) (Fin 0) (Fin 1)
                (Fin 1) (Fin 1) (map Fin [2]) (map Fin [3])"
    using L r(1) u(1,2) by blast
  have e2: "Fin 0 \<le> RooGaussBern_evaluate (Fin 0) (Fin (- 5)) (Fin 5) (Fin 0) (Fin 1)
                (Fin 1) (Fin 1) (map Fin [2]) (map Fin [3])"
    using G r(2) by blast
  have e3: "Fin 0 \<le> RooGaussBern_evaluate (Fin 3) (Fin (- 5)) (Fin 5) (Fin 0) (Fin 1)
                (Fin 1) (Fin 1) (map Fin [2]) (map Fin [3])"
    using R r(3) u(3,4) by blast
  have e4: "Fin 0 \<le> RooGaussBern_evaluate_binary64 (Fin (- 3)) (Fin (- 5)) (Fin 5) (Fin 0) (Fin 1)
                (Fin 1) (Fin 1) (map Fin [2]) (map Fin [3])"
    using L d r64(1) u64(1,2) by blast
  have e5: "Fin 0 \<le> RooGaussBern_evaluate_binary64 (Fin 0) (Fin (- 5)) (Fin 5) (Fin 0) (Fin 1)
                (Fin 1) (Fin 1) (map Fin [2]) (map Fin [3])"
    using G d r64(2) by blast
  have e6: "Fin 0 \<le> RooGaussBern_evaluate_binary64 (Fin 3) (Fin (- 5)) (Fin 5) (Fin 0) (Fin 1)
                (Fin 1) (Fin 1) (map Fin [2]) (map Fin [3])"
    using R d r64(3) u64(3,4) by blast
  show ?thesis
    by (intro conjI p[THEN conjunct1] p[THEN conjunct2, THEN conjunct1]
        p[THEN conjunct2, THEN conjunct2, THEN conjunct1]
        p[THEN conjunct2, THEN conjunct2, THEN conjunct2] r u r64 u64 e1 e2 e3 e4 e5 e6)
qed

section \<open>The left tail of the concrete shape in binary64 arithmetic\<close>

lemma round_dbl_mono:
  assumes "a \<le> b"
  shows "round_dbl a \<le> round_dbl b"
proof (cases a)
  case a: (Fin r)
  show ?thesis
  proof (cases b)
    case (Fin s)
    then show ?thesis
      using assms a by (simp add: round_dbl_def binary64_mono)
  next
    case PInf
    then show ?thesis
      using a binary64_cases[of r] by (cases "binary64 r") (simp_all add: round_dbl_def)
  qed (use assms a in simp_all)
next
  case NInf
  show ?thesis
  proof (cases b)
    case (Fin s)
    then show ?thesis
      using NInf binary64_cases[of s] by (cases "binary64 s") (simp_all add: round_dbl_def)
  qed (use assms NInf in \<open>simp_all add: round_dbl_def\<close>)
next
  case PInf
  then show ?thesis
    using assms by (cases b) (simp_all add: round_dbl_def)
qed (use assms in simp_all)

lemma one_minus_antimono:
  assumes "ls1 \<le> ls2"
  shows "fl_sub (Fin 1) ls2 \<le> fl_sub (Fin 1) ls1"
proof -
  have "Fin 1 - ls2 \<le> Fin 1 - ls1"
    using assms by (cases ls1; cases ls2) (simp_all add: minus_dbl_def)
  then show ?thesis
    unfolding fl_sub_def by (rule round_dbl_mono)
qed

lemma one_minus_ge_two:
  assumes "ls < Fin (- 1)"
  shows "Fin 2 \<le> fl_sub (Fin 1) ls"
proof -
  have "Fin 2 \<le> Fin 1 - ls"
    using assms by (cases ls) (simp_all add: minus_dbl_def)
  then have "round_dbl (Fin 2) \<le> round_dbl (Fin 1 - ls)"
    by (rule round_dbl_mono)
  then show ?thesis
    by (simp add: fl_sub_def round_dbl_def binary64_small_values)
qed

lemma inverse_square_antimono:
  assumes "Fin 2 \<le> b2" "b2 \<le> b1"
  shows "fl_pow b1 (Fin (- 2)) \<le> fl_pow b2 (Fin (- 2))"
proof -
  have "TMath_Power b1 (Fin (- 2)) \<le> TMath_Power b2 (Fin (- 2))"
  proof (cases b2)
    case b2: (Fin s)
    then have s: "2 \<le> s"
      using assms(1) by simp
    show ?thesis
    proof (cases b1)
      case (Fin r)
      then have "s \<le> r"
        using assms(2) b2 by simp
      then have "r powr (- 2) \<le> s powr (- 2)"
        using s by (intro powr_mono2') simp_all
      then show ?thesis
        using s \<open>s \<le> r\<close> by (simp add: Fin b2)
    next
      case PInf
      then show ?thesis
        using s by (simp add: b2)
    qed (use assms(2) b2 in simp_all)
  next
    case PInf
    then show ?thesis
      using assms(2) by (cases b1) simp_all
  qed (use assms(1) in simp_all)
  then show ?thesis
    unfolding fl_pow_def by (rule round_dbl_mono)
qed

lemma inverse_square_range:
  assumes "Fin 2 \<le> b"
  shows "\<exists>p. fl_pow b (Fin (- 2)) = Fin p \<and> 0 \<le> p \<and> p \<le> 1 / 4"
proof -
  have q: "binary64 (1 / 4) = Fin (1 / 4)"
    using binary64_quarters(2) binary64_uminus[of "1 / 4"] by (cases "binary64 (1 / 4)") simp_all
  show ?thesis
  proof (cases b)
    case (Fin s)
    then have s: "2 \<le> s"
      using assms by simp
    then have "s powr (- 2) \<le> 2 powr (- 2)"
      by (intro powr_mono2') simp_all
    moreover have "(2::real) powr (- 2) = 1 / 4"
      by (simp add: powr_minus_divide)
    ultimately have "0 \<le> s powr (- 2)" "s powr (- 2) \<le> 1 / 4"
      by simp_all
    then have "\<exists>p. binary64 (s powr (- 2)) = Fin p \<and> 0 \<le> p \<and> p \<le> 1 / 4"
      using binary64_between[of 0 "s powr (- 2)" "1 / 4"] q by simp
    then show ?thesis
      using s by (simp add: Fin fl_pow_def round_dbl_def)
  next
    case PInf
    then show ?thesis
      by (simp add: fl_pow_def round_dbl_def)
  qed (use assms in simp_all)
qed

text \<open>
  With the parameters of the concrete shape the value of the left branch is the rounded
  product of \<open>A = 4 exp (- 1 / 2)\<close> and \<open>(1 - z) ^ (- 2)\<close>, rounded twice more by the blend with
  \<open>f = 1\<close>.
\<close>

lemma fl_arith_scenario:
  "fl_div (Fin 2) (Fin 1) = Fin 2" "fl_sub (Fin 2) (Fin 1) = Fin 1"
  "fl_pow (Fin 2) (Fin 2) = Fin 4" "fl_mul (Fin (- 1)) (Fin 2) = Fin (- 2)"
  "fl_sub (Fin 1) (Fin 1) = Fin 0"
  "fl_mul (fl_mul (Fin (- 0.5)) (Fin 1)) (Fin 1) = Fin (- (1 / 2))"
  "fl_mul (Fin 0) (Fin q) = Fin 0"
proof -
  have "TMath_Power (Fin 2) (Fin (real 2)) = Fin (2 ^ 2)"
    by (rule TMath_Power_nat)
  then show "fl_pow (Fin 2) (Fin 2) = Fin 4"
    by (simp add: fl_pow_def round_dbl_def binary64_more_values)
  show "fl_div (Fin 2) (Fin 1) = Fin 2" "fl_sub (Fin 2) (Fin 1) = Fin 1"
    "fl_mul (Fin (- 1)) (Fin 2) = Fin (- 2)" "fl_sub (Fin 1) (Fin 1) = Fin 0"
    "fl_mul (fl_mul (Fin (- 0.5)) (Fin 1)) (Fin 1) = Fin (- (1 / 2))"
    "fl_mul (Fin 0) (Fin q) = Fin 0"
    by (simp_all add: fl_div_def fl_sub_def fl_mul_def round_dbl_def binary64_small_values
        binary64_quarters)
qed

lemma scale_binary64:
  "\<exists>e a. fl_exp (Fin (- (1 / 2))) = Fin e \<and> fl_mul (Fin 4) (Fin e) = Fin a \<and> 2 \<le> a \<and> a \<le> 4"
proof -
  obtain e where e: "binary64 (exp (- (1 / 2))) = Fin e" "1 / 2 \<le> e" "e \<le> 1"
    using binary64_between[of "1 / 2" "exp (- (1 / 2))" 1] exp_half_bounds binary64_small_values
    by auto
  have "2 \<le> 4 * e" "4 * e \<le> 4"
    using e(2,3) by simp_all
  then obtain a where a: "binary64 (4 * e) = Fin a" "2 \<le> a" "a \<le> 4"
    using binary64_between[of 2 "4 * e" 4] binary64_small_values binary64_more_values by auto
  have "fl_exp (Fin (- (1 / 2))) = Fin e" "fl_mul (Fin 4) (Fin e) = Fin a"
    by (simp_all add: fl_exp_def fl_mul_def round_dbl_def e(1) a(1))
  then show ?thesis
    using a(2,3) by blast
qed

lemma scenario_tail_binary64:
  assumes e: "fl_exp (Fin (- (1 / 2))) = Fin e"
    and a: "fl_mul (Fin 4) (Fin e) = Fin a" "0 \<le> a" "a \<le> 4"
    and p: "fl_pow (fl_sub (Fin 1) ls) (Fin (- 2)) = Fin p" "0 \<le> p" "p \<le> 1 / 4"
  shows "left_power_law_binary64 ls (Fin 1) (Fin 2) (Fin 2) (Fin 1)
         = round_dbl (round_dbl (binary64 (a * p)))"
    and "\<exists>v. left_power_law_binary64 ls (Fin 1) (Fin 2) (Fin 2) (Fin 1) = Fin v \<and> 0 \<le> v \<and> v \<le> 1"
proof -
  have "0 \<le> a * p" "a * p \<le> 4 * (1 / 4)"
    using a(2,3) p(2,3) by (simp, intro mult_mono) simp_all
  then obtain q where q: "binary64 (a * p) = Fin q" "0 \<le> q" "q \<le> 1"
    using binary64_unit[of "a * p"] by auto
  obtain q1 where q1: "binary64 q = Fin q1" "0 \<le> q1" "q1 \<le> 1"
    using binary64_unit[OF q(2,3)] by blast
  obtain q2 where q2: "binary64 q1 = Fin q2" "0 \<le> q2" "q2 \<le> 1"
    using binary64_unit[OF q1(2,3)] by blast
  have m: "fl_mul (Fin a) (Fin p) = Fin q" "fl_mul (Fin 1) (Fin q) = Fin q1"
    "fl_add (Fin q1) (Fin 0) = Fin q2"
    by (simp_all add: fl_mul_def fl_add_def round_dbl_def q(1) q1(1) q2(1))
  have v: "left_power_law_binary64 ls (Fin 1) (Fin 2) (Fin 2) (Fin 1) = Fin q2"
    by (simp only: left_power_law_binary64_def Let_def fabs.simps abs_one less_dbl.simps
        less_irrefl if_False fl_arith_scenario e a(1) p(1) m)
  show "left_power_law_binary64 ls (Fin 1) (Fin 2) (Fin 2) (Fin 1)
         = round_dbl (round_dbl (binary64 (a * p)))"
    unfolding v by (simp add: round_dbl_def q(1) q1(1) q2(1))
  show "\<exists>v. left_power_law_binary64 ls (Fin 1) (Fin 2) (Fin 2) (Fin 1) = Fin v \<and> 0 \<le> v \<and> v \<le> 1"
    unfolding v using q2(2,3) by blast
qed

lemma scenario_tail_binary64_mono:
  assumes "ls1 \<le> ls2" "ls2 < Fin (- 1)"
  shows "left_power_law_binary64 ls1 (Fin 1) (Fin 2) (Fin 2) (Fin 1)
         \<le> left_power_law_binary64 ls2 (Fin 1) (Fin 2) (Fin 2) (Fin 1)"
proof -
  obtain e a where e: "fl_exp (Fin (- (1 / 2))) = Fin e"
    and a: "fl_mul (Fin 4) (Fin e) = Fin a" "2 \<le> a" "a \<le> 4"
    using scale_binary64 by blast
  have a0: "0 \<le> a"
    using a(2) by simp
  have b2: "Fin 2 \<le> fl_sub (Fin 1) ls2"
    by (rule one_minus_ge_two[OF assms(2)])
  have b21: "fl_sub (Fin 1) ls2 \<le> fl_sub (Fin 1) ls1"
    by (rule one_minus_antimono[OF assms(1)])
  have b1: "Fin 2 \<le> fl_sub (Fin 1) ls1"
    using b2 b21 by (cases "fl_sub (Fin 1) ls1"; cases "fl_sub (Fin 1) ls2") simp_all
  obtain p1 where p1: "fl_pow (fl_sub (Fin 1) ls1) (Fin (- 2)) = Fin p1" "0 \<le> p1" "p1 \<le> 1 / 4"
    using inverse_square_range[OF b1] by blast
  obtain p2 where p2: "fl_pow (fl_sub (Fin 1) ls2) (Fin (- 2)) = Fin p2" "0 \<le> p2" "p2 \<le> 1 / 4"
    using inverse_square_range[OF b2] by blast
  have "p1 \<le> p2"
    using inverse_square_antimono[OF b2 b21] by (simp add: p1(1) p2(1))
  then have "a * p1 \<le> a * p2"
    using a0 by (rule mult_left_mono)
  then have "binary64 (a * p1) \<le> binary64 (a * p2)"
    by (rule binary64_mono)
  then have "round_dbl (round_dbl (binary64 (a * p1))) \<le> round_dbl (round_dbl (binary64 (a * p2)))"
    by (intro round_dbl_mono)
  then show ?thesis
    unfolding scenario_tail_binary64(1)[OF e a(1) a0 a(3) p1]
      scenario_tail_binary64(1)[OF e a(1) a0 a(3) p2] .
qed

lemma divide_one_dbl: "a / Fin 1 = a" for a :: dbl
  by (cases a) simp_all

lemma normalised_distance_mono:
  assumes "x1 \<le> x2"
  shows "fl_div (fl_sub (Fin x1) (Fin 0)) (Fin 1) \<le> fl_div (fl_sub (Fin x2) (Fin 0)) (Fin 1)"
proof -
  have "round_dbl (Fin x1) \<le> round_dbl (Fin x2)"
    using assms by (intro round_dbl_mono) simp
  then have "round_dbl (round_dbl (Fin x1)) \<le> round_dbl (round_dbl (Fin x2))"
    by (rule round_dbl_mono)
  then show ?thesis
    by (simp add: fl_div_def fl_sub_def divide_one_dbl)
qed

lemma less_le_trans_dbl: "a \<le> b \<Longrightarrow> b < c \<Longrightarrow> a < c" for a b c :: dbl
  by (cases a; cases b; cases c) simp_all

lemma binary64_powers_of_two:
  "binary64 (1 / 64) = Fin (1 / 64)" "binary64 (1 / 32) = Fin (1 / 32)"
  "binary64 (1 / 8) = Fin (1 / 8)" "binary64 6 = Fin 6"
proof -
  have "binary64 (of_int 1 * 2 powr (of_int (- 6))) = Fin (of_int 1 * 2 powr (of_int (- 6)))"
    by (rule binary64_representable) simp_all
  moreover have "(2::real) powr (- 6) = 1 / 64"
    by (simp add: powr_minus_divide)
  ultimately show "binary64 (1 / 64) = Fin (1 / 64)"
    by simp
  have "binary64 (of_int 1 * 2 powr (of_int (- 5))) = Fin (of_int 1 * 2 powr (of_int (- 5)))"
    by (rule binary64_representable) simp_all
  moreover have "(2::real) powr (- 5) = 1 / 32"
    by (simp add: powr_minus_divide)
  ultimately show "binary64 (1 / 32) = Fin (1 / 32)"
    by simp
  have "binary64 (of_int 1 * 2 powr (of_int (- 3))) = Fin (of_int 1 * 2 powr (of_int (- 3)))"
    by (rule binary64_representable) simp_all
  moreover have "(2::real) powr (- 3) = 1 / 8"
    by (simp add: powr_minus_divide)
  ultimately show "binary64 (1 / 8) = Fin (1 / 8)"
    by simp
  show "binary64 6 = Fin 6"
    using binary64_int[of 6] by simp
qed

lemma deep_left_tail_binary64:
  "\<exists>v. left_power_law_binary64 (Fin (- 5)) (Fin 1) (Fin 2) (Fin 2) (Fin 1) = Fin v
       \<and> 1 / 32 \<le> v \<and> v \<le> 1 / 8"
proof -
  obtain e a where e: "fl_exp (Fin (- (1 / 2))) = Fin e"
    and a: "fl_mul (Fin 4) (Fin e) = Fin a" "2 \<le> a" "a \<le> 4"
    using scale_binary64 by blast
  have a0: "0 \<le> a"
    using a(2) by simp
  have "(6::real) powr (- 2) = 1 / 36"
    by (simp add: powr_minus_divide)
  then have "1 / 64 \<le> (6::real) powr (- 2)" "(6::real) powr (- 2) \<le> 1 / 32"
    by simp_all
  then obtain p where p: "binary64 (6 powr (- 2)) = Fin p" "1 / 64 \<le> p" "p \<le> 1 / 32"
    using binary64_between[of "1 / 64" "6 powr (- 2)" "1 / 32"] binary64_powers_of_two by auto
  have P: "fl_pow (fl_sub (Fin 1) (Fin (- 5))) (Fin (- 2)) = Fin p"
    by (simp add: fl_sub_def fl_pow_def round_dbl_def binary64_powers_of_two p(1))
  have p0: "0 \<le> p" "p \<le> 1 / 4"
    using p(2,3) by simp_all
  have "2 * (1 / 64) \<le> a * p" "a * p \<le> 4 * (1 / 32)"
    using a(2,3) p(2,3) a0 p0(1) by (intro mult_mono; simp)+
  then have "1 / 32 \<le> a * p" "a * p \<le> 1 / 8"
    by simp_all
  then obtain q where q: "binary64 (a * p) = Fin q" "1 / 32 \<le> q" "q \<le> 1 / 8"
    using binary64_between[of "1 / 32" "a * p" "1 / 8"] binary64_powers_of_two by auto
  obtain q1 where q1: "binary64 q = Fin q1" "1 / 32 \<le> q1" "q1 \<le> 1 / 8"
    using binary64_between[OF q(2,3)] binary64_powers_of_two by auto
  obtain q2 where q2: "binary64 q1 = Fin q2" "1 / 32 \<le> q2" "q2 \<le> 1 / 8"
    using binary64_between[OF q1(2,3)] binary64_powers_of_two by auto
  have "left_power_law_binary64 (Fin (- 5)) (Fin 1) (Fin 2) (Fin 2) (Fin 1) = Fin q2"
    unfolding scenario_tail_binary64(1)[OF e a(1) a0 a(3) P p0]
    by (simp add: round_dbl_def q(1) q1(1) q2(1))
  then show ?thesis
    using q2(2,3) by blast
qed

lemma scenario_left_region_binary64:
  assumes "fl_div (fl_sub x (Fin 0)) (Fin 1) < fl_mul (Fin (- 1)) (Fin 1)"
  shows "RooModDSCB_evaluate_binary64 x (Fin 0) (Fin 1) (Fin 1) (Fin 1) (Fin 2) (Fin 2) (Fin 1)
           (Fin 1) (Fin 2) (Fin 2) (Fin 1)
         = left_power_law_binary64 (fl_div (fl_sub x (Fin 0)) (Fin 1)) (Fin 1) (Fin 2) (Fin 2) (Fin 1)"
  unfolding RooModDSCB_evaluate_binary64_if using assms by (simp only: if_True)

text \<open>
  C7, as amended.  With \<open>x0 = 0\<close>, both widths 1, both boundaries 1, all four exponents 2
  and both fractions 1, \<^verbatim>\<open>evaluate\<close> at \<open>x = - 5\<close> returns a finite value that is positive and
  strictly below \<open>exp (- 0.5)\<close>, in exact and in binary64 arithmetic.  The closed form of
  the left tail, as a function of a real \<open>x < - 1\<close>, strictly decreases as \<open>x\<close> decreases;
  the doubles returned in the left-tail region decrease weakly: of two points that
  \<^verbatim>\<open>evaluate\<close> puts in the left tail, the one further left never gets the larger value.
\<close>

theorem scenario_C:
  "(\<exists>v. RooModDSCB_evaluate (Fin (- 5)) (Fin 0) (Fin 1) (Fin 1) (Fin 1) (Fin 2) (Fin 2) (Fin 1)
           (Fin 1) (Fin 2) (Fin 2) (Fin 1) = Fin v \<and> 0 < v \<and> v < exp (- 0.5))
   \<and> (\<exists>v. RooModDSCB_evaluate_binary64 (Fin (- 5)) (Fin 0) (Fin 1) (Fin 1) (Fin 1) (Fin 2)
           (Fin 2) (Fin 1) (Fin 1) (Fin 2) (Fin 2) (Fin 1) = Fin v \<and> 0 < v \<and> v < exp (- 0.5))
   \<and> (\<forall>x1 x2. x1 < x2 \<and> x2 < - 1 \<longrightarrow>
        left_power_law_real x1 1 2 2 1 < left_power_law_real x2 1 2 2 1)
   \<and> (\<forall>x1 x2. x1 \<le> x2
        \<and> fl_div (fl_sub (Fin x2) (Fin 0)) (Fin 1) < fl_mul (Fin (- 1)) (Fin 1) \<longrightarrow>
        RooModDSCB_evaluate_binary64 (Fin x1) (Fin 0) (Fin 1) (Fin 1) (Fin 1) (Fin 2) (Fin 2)
          (Fin 1) (Fin 1) (Fin 2) (Fin 2) (Fin 1)
        \<le> RooModDSCB_evaluate_binary64 (Fin x2) (Fin 0) (Fin 1) (Fin 1) (Fin 1) (Fin 2) (Fin 2)
          (Fin 1) (Fin 1) (Fin 2) (Fin 2) (Fin 1))"
proof (intro conjI allI impI)
  have "exp (- 1 / 2) / (9::real) < exp (- 1 / 2)"
    by simp
  then show "\<exists>v. RooModDSCB_evaluate (Fin (- 5)) (Fin 0) (Fin 1) (Fin 1) (Fin 1) (Fin 2) (Fin 2)
           (Fin 1) (Fin 1) (Fin 2) (Fin 2) (Fin 1) = Fin v \<and> 0 < v \<and> v < exp (- 0.5)"
    using deep_left_tail_value2 by (intro exI[of _ "exp (- 1 / 2) / 9"]) simp
next
  have z: "fl_div (fl_sub (Fin (- 5)) (Fin 0)) (Fin 1) = Fin (- 5)"
    by (simp add: fl_div_def fl_sub_def round_dbl_def binary64_more_values)
  have "fl_div (fl_sub (Fin (- 5)) (Fin 0)) (Fin 1) < fl_mul (Fin (- 1)) (Fin 1)"
    unfolding z by (simp add: fl_arith_200)
  then have "RooModDSCB_evaluate_binary64 (Fin (- 5)) (Fin 0) (Fin 1) (Fin 1) (Fin 1) (Fin 2)
           (Fin 2) (Fin 1) (Fin 1) (Fin 2) (Fin 2) (Fin 1)
        = left_power_law_binary64 (Fin (- 5)) (Fin 1) (Fin 2) (Fin 2) (Fin 1)"
    using scenario_left_region_binary64[of "Fin (- 5)"] unfolding z by simp
  moreover obtain v where "left_power_law_binary64 (Fin (- 5)) (Fin 1) (Fin 2) (Fin 2) (Fin 1) = Fin v"
      "1 / 32 \<le> v" "v \<le> 1 / 8"
    using deep_left_tail_binary64 by blast
  moreover have "(1 / 8 :: real) < exp (- 0.5)"
    using exp_half_bounds(1) by simp
  ultimately show "\<exists>v. RooModDSCB_evaluate_binary64 (Fin (- 5)) (Fin 0) (Fin 1) (Fin 1) (Fin 1)
           (Fin 2) (Fin 2) (Fin 1) (Fin 1) (Fin 2) (Fin 2) (Fin 1) = Fin v \<and> 0 < v \<and> v < exp (- 0.5)"
    by (intro exI[of _ v]) simp
next
  fix x1 x2 :: real
  assume h: "x1 < x2 \<and> x2 < - 1"
  then have "(1 - x1) powr (- 2) < (1 - x2) powr (- 2)"
    by (intro powr_less_mono2_neg) auto
  then show "left_power_law_real x1 1 2 2 1 < left_power_law_real x2 1 2 2 1"
    using h by (simp add: left_power_law_real_scenario)
next
  fix x1 x2 :: real
  assume h: "x1 \<le> x2
        \<and> fl_div (fl_sub (Fin x2) (Fin 0)) (Fin 1) < fl_mul (Fin (- 1)) (Fin 1)"
  then have le: "fl_div (fl_sub (Fin x1) (Fin 0)) (Fin 1) \<le> fl_div (fl_sub (Fin x2) (Fin 0)) (Fin 1)"
    by (intro normalised_distance_mono) simp
  have r2: "fl_div (fl_sub (Fin x2) (Fin 0)) (Fin 1) < fl_mul (Fin (- 1)) (Fin 1)"
    using h by simp
  have r1: "fl_div (fl_sub (Fin x1) (Fin 0)) (Fin 1) < fl_mul (Fin (- 1)) (Fin 1)"
    by (rule less_le_trans_dbl[OF le r2])
  have "fl_div (fl_sub (Fin x2) (Fin 0)) (Fin 1) < Fin (- 1)"
    using r2 by (simp only: fl_arith_200)
  then show "RooModDSCB_evaluate_binary64 (Fin x1) (Fin 0) (Fin 1) (Fin 1) (Fin 1) (Fin 2) (Fin 2)
          (Fin 1) (Fin 1) (Fin 2) (Fin 2) (Fin 1)
        \<le> RooModDSCB_evaluate_binary64 (Fin x2) (Fin 0) (Fin 1) (Fin 1) (Fin 1) (Fin 2) (Fin 2)
          (Fin 1) (Fin 1) (Fin 2) (Fin 2) (Fin 1)"
    unfolding scenario_left_region_binary64[OF r1] scenario_left_region_binary64[OF r2]
    by (rule scenario_tail_binary64_mono[OF le])
qed

theorem scenario_C_witness:
  "(- 6 :: real) < - 5 \<and> (- 5 :: real) < - 1
   \<and> left_power_law_real (- 6) 1 2 2 1 < left_power_law_real (- 5) 1 2 2 1
   \<and> (- 6 :: real) \<le> - 5
   \<and> fl_div (fl_sub (Fin (- 5)) (Fin 0)) (Fin 1) < fl_mul (Fin (- 1)) (Fin 1)
   \<and> RooModDSCB_evaluate_binary64 (Fin (- 6)) (Fin 0) (Fin 1) (Fin 1) (Fin 1) (Fin 2) (Fin 2)
          (Fin 1) (Fin 1) (Fin 2) (Fin 2) (Fin 1)
        \<le> RooModDSCB_evaluate_binary64 (Fin (- 5)) (Fin 0) (Fin 1) (Fin 1) (Fin 1) (Fin 2) (Fin 2)
          (Fin 1) (Fin 1) (Fin 2) (Fin 2) (Fin 1)"
proof -
  have z: "fl_div (fl_sub (Fin (- 5)) (Fin 0)) (Fin 1) = Fin (- 5)"
    by (simp add: fl_div_def fl_sub_def round_dbl_def binary64_more_values)
  have r: "fl_div (fl_sub (Fin (- 5)) (Fin 0)) (Fin 1) < fl_mul (Fin (- 1)) (Fin 1)"
    unfolding z by (simp add: fl_arith_200)
  have o: "(- 6 :: real) < - 5" "(- 5 :: real) < - 1" "(- 6 :: real) \<le> - 5"
    by simp_all
  show ?thesis
    using scenario_C r o by blast
qed

end
